theory Spec2Isabelle
  imports Complex_Main
begin

section \<open>Machine arithmetic and outcomes\<close>

text \<open>
  The indexing prototype (\<^verbatim>\<open>fims_indexing.cpp\<close>, the version with variable season
  lengths) computes every offset and every array size in \<^verbatim>\<open>size_t\<close>. On the LP64
  platforms the prototype targets this is an unsigned 64-bit integer whose \<^verbatim>\<open>+\<close> and
  \<^verbatim>\<open>*\<close> wrap around. The model keeps sizes as natural numbers and writes the
  wrap-around out.
\<close>

definition SIZE_WIDTH :: nat where
  "SIZE_WIDTH = 64"

definition size_add :: "nat \<Rightarrow> nat \<Rightarrow> nat" where
  "size_add a b = (a + b) mod 2 ^ SIZE_WIDTH"

definition size_mul :: "nat \<Rightarrow> nat \<Rightarrow> nat" where
  "size_mul a b = (a * b) mod 2 ^ SIZE_WIDTH"

definition INT_MAX :: nat where
  "INT_MAX = 2147483647"

text \<open>
  Nothing in the indexing code throws. What can go wrong there is undefined behaviour
  or a loop that cannot finish; each is a value of \<open>fault\<close>, and a function that can
  go wrong returns \<open>fault + 'a\<close>:
  \<^item> \<open>out_of_range\<close>: \<^verbatim>\<open>operator[]\<close> of a \<^verbatim>\<open>std::vector\<close> at an index that is
    not below its size (unchecked, undefined behaviour);
  \<^item> \<open>signed_overflow\<close>: an \<^verbatim>\<open>int\<close> loop counter incremented past \<^verbatim>\<open>INT_MAX\<close>
    (undefined behaviour);
  \<^item> \<open>indeterminate\<close>: a member read before anything was stored in it (undefined
    behaviour);
  \<^item> \<open>inexact_counter\<close>: a \<^verbatim>\<open>double\<close> loop counter asked to count beyond
    \<open>2 ^ 53\<close>, where adding \<open>1.0\<close> no longer changes it.
\<close>

datatype fault = out_of_range | signed_overflow | indeterminate | inexact_counter

text \<open>
  A counted loop \<^verbatim>\<open>for (i = 0; i < n; i++) body\<close> runs its body on \<open>[0..<n]\<close> in
  order, threading the state, and stops at the first fault.
\<close>

fun for_each :: "nat list \<Rightarrow> (nat \<Rightarrow> 's \<Rightarrow> fault + 's) \<Rightarrow> 's \<Rightarrow> fault + 's" where
  "for_each [] body st = Inr st"
| "for_each (i # is) body st =
     (case body i st of Inl f \<Rightarrow> Inl f | Inr st' \<Rightarrow> for_each is body st')"

text \<open>
  The same loop with an \<^verbatim>\<open>int\<close> counter compared against a \<^verbatim>\<open>size_t\<close> bound: when
  the bound exceeds \<^verbatim>\<open>INT_MAX\<close> the counter overflows before the loop can end.
\<close>

definition for_each_int :: "nat \<Rightarrow> (nat \<Rightarrow> 's \<Rightarrow> fault + 's) \<Rightarrow> 's \<Rightarrow> fault + 's" where
  "for_each_int n body st =
     (case for_each [0..<n] body st of
        Inl f \<Rightarrow> Inl f
      | Inr st' \<Rightarrow> if n \<le> INT_MAX then Inr st' else Inl signed_overflow)"

section \<open>The time grid: \<^verbatim>\<open>model_base\<close>\<close>

text \<open>
  \<^verbatim>\<open>model_base\<close> holds the dimensions. Isabelle does not accept a constant name that
  ends in an underscore, so the members \<^verbatim>\<open>nyears_\<close>, \<^verbatim>\<open>nseasons_\<close>, \<^verbatim>\<open>nages_\<close>,
  \<^verbatim>\<open>season_offsets_\<close> and \<^verbatim>\<open>seasons_max_\<close> lose theirs. The variable-season
  constructor never assigns \<^verbatim>\<open>nseasons_\<close>, hence the option. Season offsets are
  \<^verbatim>\<open>double\<close>s; they are kept as reals, and only the lengths of the rows are ever used.
  The static counter \<^verbatim>\<open>id_g\<close> is passed in and returned.
\<close>

record model_base =
  nyears :: nat
  nseasons :: "nat option"
  nages :: nat
  season_offsets :: "real list list"
  seasons_max :: nat
  object_id :: nat

definition next_id :: "nat \<Rightarrow> nat" where
  "next_id g = size_add g 1"

text \<open>
  \<^verbatim>\<open>model_base(size_t nyears, vector<vector<double>> season_offsets, size_t nages)\<close>:
  the loop reads \<^verbatim>\<open>season_offsets_[i]\<close> for every \<open>i < nyears\<close> and keeps the largest
  row size.
\<close>

definition max_season_step :: "real list list \<Rightarrow> nat \<Rightarrow> nat \<Rightarrow> fault + nat" where
  "max_season_step offs i m =
     (if i < length offs then Inr (max m (length (offs ! i))) else Inl out_of_range)"

definition model_base_variable ::
  "nat \<Rightarrow> real list list \<Rightarrow> nat \<Rightarrow> nat \<Rightarrow> fault + (model_base \<times> nat)" where
  "model_base_variable ny offs na g =
     (case for_each [0..<ny] (max_season_step offs) 0 of
        Inl f \<Rightarrow> Inl f
      | Inr m \<Rightarrow>
          Inr (\<lparr>nyears = ny, nseasons = None, nages = na, season_offsets = offs,
                seasons_max = m, object_id = g\<rparr>, next_id g))"

text \<open>
  \<^verbatim>\<open>model_base(size_t nyears, size_t nseasons, size_t nages)\<close>: every year gets the
  row \<open>(j + 1) / nseasons\<close> for \<open>j = 0, 1, \<dots>\<close> while \<open>j < nseasons\<close>. The outer counter
  is an \<^verbatim>\<open>int\<close>, the inner one a \<^verbatim>\<open>double\<close>, which counts exactly up to \<open>2 ^ 53\<close>.
\<close>

definition fixed_row :: "nat \<Rightarrow> fault + real list" where
  "fixed_row ns =
     (if ns \<le> 2 ^ 53 then Inr (map (\<lambda>j. (real j + 1) / real ns) [0..<ns])
      else Inl inexact_counter)"

definition push_fixed_row :: "nat \<Rightarrow> nat \<Rightarrow> real list list \<Rightarrow> fault + real list list" where
  "push_fixed_row ns i offs =
     (case fixed_row ns of
        Inl f \<Rightarrow> Inl f
      | Inr row \<Rightarrow>
          if i < length offs then Inr (offs[i := offs ! i @ row]) else Inl out_of_range)"

definition model_base_fixed :: "nat \<Rightarrow> nat \<Rightarrow> nat \<Rightarrow> nat \<Rightarrow> fault + (model_base \<times> nat)" where
  "model_base_fixed ny ns na g =
     (case for_each_int ny (push_fixed_row ns) (replicate ny []) of
        Inl f \<Rightarrow> Inl f
      | Inr offs \<Rightarrow>
          Inr (\<lparr>nyears = ny, nseasons = Some ns, nages = na, season_offsets = offs,
                seasons_max = ns, object_id = g\<rparr>, next_id g))"

text \<open>The three-argument \<^verbatim>\<open>get_index(year, season, age)\<close>.\<close>

definition get_index :: "'a model_base_scheme \<Rightarrow> nat \<Rightarrow> nat \<Rightarrow> nat \<Rightarrow> nat" where
  "get_index m year season age =
     size_add (size_add (size_mul (size_mul year (seasons_max m)) (nages m))
                        (size_mul season (nages m)))
              age"

text \<open>The two-argument \<^verbatim>\<open>get_index(year, season)\<close>.\<close>

definition get_index2 :: "'a model_base_scheme \<Rightarrow> nat \<Rightarrow> nat \<Rightarrow> nat" where
  "get_index2 m year season =
     size_add (size_mul (size_mul year (seasons_max m)) (nages m)) season"

text \<open>
  \<^verbatim>\<open>get_seasons(year)\<close> is \<^verbatim>\<open>season_offsets_[year].size()\<close>: no comparison with
  \<^verbatim>\<open>nyears_\<close>, and no check of the index.
\<close>

definition get_seasons :: "'a model_base_scheme \<Rightarrow> nat \<Rightarrow> fault + nat" where
  "get_seasons m year =
     (if year < length (season_offsets m) then Inr (length (season_offsets m ! year))
      else Inl out_of_range)"

section \<open>Areas, population units and subpopulations\<close>

text \<open>
  \<^verbatim>\<open>area\<close> derives from \<^verbatim>\<open>model_base\<close> and adds nothing; its only constructor is the
  fixed-season one.
\<close>

type_synonym area = model_base

definition area_fixed :: "nat \<Rightarrow> nat \<Rightarrow> nat \<Rightarrow> nat \<Rightarrow> fault + (area \<times> nat)" where
  "area_fixed ny ns na g = model_base_fixed ny ns na g"

text \<open>
  \<^verbatim>\<open>population_base\<close> adds the age classes. Its variable-season constructor takes no
  age list and leaves \<^verbatim>\<open>ages\<close> empty.
\<close>

record population_base = model_base +
  ages :: "real list"

definition population_base_fixed ::
  "nat \<Rightarrow> nat \<Rightarrow> nat \<Rightarrow> real list \<Rightarrow> nat \<Rightarrow> fault + (population_base \<times> nat)" where
  "population_base_fixed ny ns na ags g =
     (case model_base_fixed ny ns na g of
        Inl f \<Rightarrow> Inl f
      | Inr (mb, g') \<Rightarrow> Inr (model_base.extend mb (population_base.fields ags), g'))"

definition population_base_variable ::
  "nat \<Rightarrow> real list list \<Rightarrow> nat \<Rightarrow> nat \<Rightarrow> fault + (population_base \<times> nat)" where
  "population_base_variable ny offs na g =
     (case model_base_variable ny offs na g of
        Inl f \<Rightarrow> Inl f
      | Inr (mb, g') \<Rightarrow> Inr (model_base.extend mb (population_base.fields []), g'))"

text \<open>
  \<^verbatim>\<open>subpopulation\<close> adds the derived quantities, resized by the constructor to
  \<^verbatim>\<open>nyears * seasons_max_ * nages\<close> (a \<^verbatim>\<open>size_t\<close> product) zeros, and the
  \<^verbatim>\<open>shared_ptr<area> area_\<close>, null until assigned. Areas are never modified, so the
  pointer is modelled by the area it points to; two areas made by different constructor
  calls differ in their \<open>object_id\<close>. The derived quantities are \<^verbatim>\<open>double\<close>s, kept
  as reals. Memory is not a resource of the model: a \<^verbatim>\<open>resize\<close> that the allocator
  would refuse returns here like any other.
\<close>

record subpopulation = population_base +
  some_derived_quantities :: "real list"
  area_ptr :: "area option"

definition derived_size :: "nat \<Rightarrow> nat \<Rightarrow> nat \<Rightarrow> nat" where
  "derived_size ny smax na = size_mul (size_mul ny smax) na"

definition subpopulation_fixed ::
  "nat \<Rightarrow> nat \<Rightarrow> nat \<Rightarrow> real list \<Rightarrow> nat \<Rightarrow> fault + (subpopulation \<times> nat)" where
  "subpopulation_fixed ny ns na ags g =
     (case population_base_fixed ny ns na ags g of
        Inl f \<Rightarrow> Inl f
      | Inr (pb, g') \<Rightarrow>
          Inr (population_base.extend pb
                 (subpopulation.fields (replicate (derived_size ny (seasons_max pb) na) 0) None),
               g'))"

definition subpopulation_variable ::
  "nat \<Rightarrow> real list list \<Rightarrow> nat \<Rightarrow> nat \<Rightarrow> fault + (subpopulation \<times> nat)" where
  "subpopulation_variable ny offs na g =
     (case population_base_variable ny offs na g of
        Inl f \<Rightarrow> Inl f
      | Inr (pb, g') \<Rightarrow>
          Inr (population_base.extend pb
                 (subpopulation.fields (replicate (derived_size ny (seasons_max pb) na) 0) None),
               g'))"

text \<open>
  \<^verbatim>\<open>calculate_some_life_history_1(index)\<close> stores the index, converted to
  \<^verbatim>\<open>double\<close>, at \<^verbatim>\<open>some_derived_quantities[index]\<close>; the access is unchecked. The
  conversion is exact for every index below \<open>2 ^ 53\<close>; the model stores the index itself.
\<close>

definition calculate_some_life_history_1 :: "nat \<Rightarrow> subpopulation \<Rightarrow> fault + subpopulation" where
  "calculate_some_life_history_1 index sp =
     (if index < length (some_derived_quantities sp)
      then Inr (sp\<lparr>some_derived_quantities := (some_derived_quantities sp)[index := real index]\<rparr>)
      else Inl out_of_range)"

text \<open>
  \<^verbatim>\<open>subpopulation::finalize()\<close> prints, for every year, every season below
  \<^verbatim>\<open>get_seasons(y)\<close> and every age, the derived quantity at \<^verbatim>\<open>get_index(y, s, a)\<close>.
  The model returns what is printed as the list of records (year, season, age, value),
  in printing order.
\<close>

type_synonym report_record = "nat \<times> nat \<times> nat \<times> real"

definition report_cell ::
  "subpopulation \<Rightarrow> nat \<Rightarrow> nat \<Rightarrow> nat \<Rightarrow> report_record list \<Rightarrow> fault + report_record list" where
  "report_cell sp y s a out =
     (let index = get_index sp y s a in
      if index < length (some_derived_quantities sp)
      then Inr (out @ [(y, s, a, some_derived_quantities sp ! index)])
      else Inl out_of_range)"

definition report_year ::
  "subpopulation \<Rightarrow> nat \<Rightarrow> report_record list \<Rightarrow> fault + report_record list" where
  "report_year sp y out =
     (case get_seasons sp y of
        Inl f \<Rightarrow> Inl f
      | Inr n \<Rightarrow> for_each [0..<n] (\<lambda>s. for_each [0..<nages sp] (report_cell sp y s)) out)"

definition finalize :: "subpopulation \<Rightarrow> fault + report_record list" where
  "finalize sp = for_each [0..<nyears sp] (report_year sp) []"

section \<open>The population\<close>

text \<open>
  \<^verbatim>\<open>population\<close> adds the areas, the \<^verbatim>\<open>std::map\<close> from sex index to the vector of
  subpopulations, and \<^verbatim>\<open>nsexes_\<close>, which no constructor assigns. Every subpopulation
  is created by \<^verbatim>\<open>make_shared\<close> and held by this map only, so it is stored by value.
\<close>

record population = population_base +
  areas :: "area list"
  subpopulation_map :: "nat \<rightharpoonup> subpopulation list"
  nsexes :: "nat option"

definition population_fixed ::
  "nat \<Rightarrow> nat \<Rightarrow> nat \<Rightarrow> real list \<Rightarrow> nat \<Rightarrow> fault + (population \<times> nat)" where
  "population_fixed ny ns na ags g =
     (case population_base_fixed ny ns na ags g of
        Inl f \<Rightarrow> Inl f
      | Inr (pb, g') \<Rightarrow>
          Inr (population_base.extend pb (population.fields [] Map.empty None), g'))"

definition population_variable ::
  "nat \<Rightarrow> real list list \<Rightarrow> nat \<Rightarrow> nat \<Rightarrow> fault + (population \<times> nat)" where
  "population_variable ny offs na g =
     (case population_base_variable ny offs na g of
        Inl f \<Rightarrow> Inl f
      | Inr (pb, g') \<Rightarrow>
          Inr (population_base.extend pb (population.fields [] Map.empty None), g'))"

text \<open>\<^verbatim>\<open>subpopulation_[i]\<close>: \<^verbatim>\<open>std::map::operator[]\<close> gives an absent key the empty vector.\<close>

definition sub_pops_at :: "(nat \<rightharpoonup> subpopulation list) \<Rightarrow> nat \<Rightarrow> subpopulation list" where
  "sub_pops_at m i = (case m i of None \<Rightarrow> [] | Some v \<Rightarrow> v)"

text \<open>
  The body of the two loops of \<^verbatim>\<open>initialize_subpopulations\<close>: a new subpopulation
  from the variable-season constructor on this population's years, season offsets and
  age count; its area is \<^verbatim>\<open>areas_[i]\<close>, with \<open>i\<close> the counter of the loop over the
  sexes; it is pushed to the back of \<^verbatim>\<open>subpopulation_[i]\<close>.
\<close>

definition add_subpopulation :: "nat \<Rightarrow> nat \<Rightarrow> population \<times> nat \<Rightarrow> fault + (population \<times> nat)" where
  "add_subpopulation i j st =
     (case st of (p, g) \<Rightarrow>
        (case subpopulation_variable (nyears p) (season_offsets p) (nages p) g of
           Inl f \<Rightarrow> Inl f
         | Inr (sub_pop, g') \<Rightarrow>
             if i < length (areas p)
             then Inr (p\<lparr>subpopulation_map := (subpopulation_map p)
                           (i \<mapsto> sub_pops_at (subpopulation_map p) i
                                  @ [sub_pop\<lparr>area_ptr := Some (areas p ! i)\<rparr>])\<rparr>, g')
             else Inl out_of_range))"

definition initialize_subpopulations ::
  "nat \<Rightarrow> area list \<Rightarrow> population \<times> nat \<Rightarrow> fault + (population \<times> nat)" where
  "initialize_subpopulations n ars st =
     (case st of (p, g) \<Rightarrow>
        for_each_int n (\<lambda>i. for_each_int (length ars) (add_subpopulation i))
          (p\<lparr>nsexes := Some n, areas := ars\<rparr>, g))"

text \<open>
  \<^verbatim>\<open>evaulate_subpopulations\<close>: for every sex, every subpopulation of that sex, and
  every year, season below \<^verbatim>\<open>get_seasons(y)\<close> and age of the population's own grid,
  the offset is computed on the population and written on the subpopulation. The
  subpopulation is \<^verbatim>\<open>sub_pops[j]\<close>, with \<open>j\<close> kept below the size of the vector by its
  loop.
\<close>

definition evaluate_year :: "population \<Rightarrow> nat \<Rightarrow> subpopulation \<Rightarrow> fault + subpopulation" where
  "evaluate_year p y sp =
     (case get_seasons p y of
        Inl f \<Rightarrow> Inl f
      | Inr n \<Rightarrow>
          for_each [0..<n]
            (\<lambda>s. for_each [0..<nages p] (\<lambda>a. calculate_some_life_history_1 (get_index p y s a)))
            sp)"

definition evaluate_sub_pop ::
  "population \<Rightarrow> nat \<Rightarrow> subpopulation list \<Rightarrow> fault + subpopulation list" where
  "evaluate_sub_pop p j sub_pops =
     (if j < length sub_pops
      then (case for_each [0..<nyears p] (evaluate_year p) (sub_pops ! j) of
              Inl f \<Rightarrow> Inl f
            | Inr sp \<Rightarrow> Inr (sub_pops[j := sp]))
      else Inl out_of_range)"

definition evaluate_sex :: "nat \<Rightarrow> population \<Rightarrow> fault + population" where
  "evaluate_sex i p =
     (let sub_pops = sub_pops_at (subpopulation_map p) i in
      case for_each [0..<length sub_pops] (evaluate_sub_pop p) sub_pops of
        Inl f \<Rightarrow> Inl f
      | Inr sub_pops' \<Rightarrow> Inr (p\<lparr>subpopulation_map := (subpopulation_map p)(i \<mapsto> sub_pops')\<rparr>))"

definition evaulate_subpopulations :: "population \<Rightarrow> fault + population" where
  "evaulate_subpopulations p =
     (case nsexes p of
        None \<Rightarrow> Inl indeterminate
      | Some n \<Rightarrow> for_each [0..<n] evaluate_sex p)"

text \<open>
  \<^verbatim>\<open>population::finalize()\<close> calls \<^verbatim>\<open>finalize()\<close> on every subpopulation, sex by sex;
  each report comes with the \<open>object_id\<close> printed in its heading. The map lookup
  \<^verbatim>\<open>subpopulation_[i]\<close> does not change what any later lookup returns, so the
  population itself is not returned.
\<close>

definition finalize_sub_pop ::
  "subpopulation list \<Rightarrow> nat \<Rightarrow> (nat \<times> report_record list) list
     \<Rightarrow> fault + (nat \<times> report_record list) list" where
  "finalize_sub_pop sub_pops j out =
     (if j < length sub_pops
      then (case finalize (sub_pops ! j) of
              Inl f \<Rightarrow> Inl f
            | Inr recs \<Rightarrow> Inr (out @ [(object_id (sub_pops ! j), recs)]))
      else Inl out_of_range)"

definition population_finalize :: "population \<Rightarrow> fault + (nat \<times> report_record list) list" where
  "population_finalize p =
     (case nsexes p of
        None \<Rightarrow> Inl indeterminate
      | Some n \<Rightarrow>
          for_each [0..<n]
            (\<lambda>i. let sub_pops = sub_pops_at (subpopulation_map p) i in
                  for_each [0..<length sub_pops] (finalize_sub_pop sub_pops))
            [])"

section \<open>The mathematical functions of \<^verbatim>\<open>fims_math.hpp\<close>\<close>

text \<open>
  The functions are templates over the number type \<^verbatim>\<open>T\<close>. The model instantiates
  \<^verbatim>\<open>T\<close> with the real numbers: arithmetic is exact, the decimal constants are the
  ones written in the source, and a division by zero yields a value (\<open>0\<close> in HOL, an
  infinity or a NaN in IEEE arithmetic) and no failure, as in the source. The only
  failure in the header is the \<^verbatim>\<open>std::invalid_argument\<close> thrown by the guards of
  \<^verbatim>\<open>gamma\<close> and \<^verbatim>\<open>lgamma\<close>; the text of its message is left out. Rounding and
  the IEEE values that are not real numbers (the infinities, NaN) are outside this
  instantiation.
\<close>

datatype exception = invalid_argument

text \<open>
  The header defines its wrappers \<^verbatim>\<open>fims::exp\<close> and \<^verbatim>\<open>fims::log\<close> under one of two
  preprocessor symbols, and compiles with exactly one of them defined.
\<close>

datatype build = STD_LIB | TMB_MODEL

text \<open>
  \<^verbatim>\<open>fims::exp\<close>. Under \<^verbatim>\<open>STD_LIB\<close> its body is \<^verbatim>\<open>return std::exp(x);\<close>. Under
  \<^verbatim>\<open>TMB_MODEL\<close> its body is \<^verbatim>\<open>return exp(x);\<close>: inside the namespace the name
  \<^verbatim>\<open>exp\<close> is the template being defined, which hides the global function, and an
  argument of a built-in number type brings no other namespace into the lookup, so the
  function calls itself. A call that does not return has no value: \<open>None\<close>.
\<close>

partial_function (option) exp_TMB_MODEL :: "real \<Rightarrow> real option" where
  "exp_TMB_MODEL x = exp_TMB_MODEL x"

definition fims_exp :: "build \<Rightarrow> real \<Rightarrow> real option" where
  "fims_exp b x = (case b of STD_LIB \<Rightarrow> Some (exp x) | TMB_MODEL \<Rightarrow> exp_TMB_MODEL x)"

definition euler_gamma :: real where
  "euler_gamma = 0.577215664901532860606512090"

definition gamma_p :: "real list" where
  "gamma_p =
     [- 1.71618513886549492533811,
      24.7656508055759199108314,
      - 379.804256470945635097577,
      629.331155312818442661052,
      866.966202790413211295064,
      - 31451.2729688483675254357,
      - 36144.4134186911729807069,
      66456.1438202405440627855]"

definition gamma_q :: "real list" where
  "gamma_q =
     [- 30.8402300119738975254353,
      315.350626979604161529144,
      - 1015.15636749021914166146,
      - 3107.77167157231109440444,
      22538.1184209801510330112,
      4755.84627752788110767815,
      - 134659.959864969306392456,
      - 115132.259675553483497211]"

text \<open>\<^verbatim>\<open>std::numeric_limits<double>::max()\<close>.\<close>

definition DBL_MAX :: real where
  "DBL_MAX = (2 - 1 / 2 ^ 52) * 2 ^ 1023"

text \<open>
  The loop \<^verbatim>\<open>for (i = 0; i < 8; i++) { num = (num + p[i]) * z; den = den * z + q[i]; }\<close>
  from \<^verbatim>\<open>num = 0\<close>, \<^verbatim>\<open>den = 1\<close>.
\<close>

definition gamma_num_den :: "real \<Rightarrow> real \<times> real" where
  "gamma_num_den z =
     fold (\<lambda>i (num, den). ((num + gamma_p ! i) * z, den * z + gamma_q ! i)) [0..<8] (0, 1)"

text \<open>The loop \<^verbatim>\<open>for (i = 0; i < n; i++) result *= y++;\<close>.\<close>

definition gamma_shift_up :: "int \<Rightarrow> real \<Rightarrow> real \<Rightarrow> real" where
  "gamma_shift_up n result y =
     fst (fold (\<lambda>i (r, y'). (r * y', y' + 1)) [0..<nat n] (result, y))"

text \<open>
  \<^verbatim>\<open>gamma(x)\<close>, in the build \<open>b\<close>. The result is \<open>None\<close> when the call does not
  return, \<open>Some (Inl e)\<close> when it throws \<open>e\<close> and \<open>Some (Inr v)\<close> when it returns \<open>v\<close>.
  The two loops are counted, with 8 and at most 10 rounds. In the last interval the
  source evaluates \<^verbatim>\<open>exp(lgamma(x))\<close>. The \<^verbatim>\<open>exp\<close> there is \<^verbatim>\<open>fims::exp\<close>, declared
  above it in the header. At that line the template \<^verbatim>\<open>fims::lgamma\<close> is not yet
  declared and the call \<^verbatim>\<open>lgamma(x)\<close> goes to the C library in either build; that
  function always returns, and it is the parameter \<open>lgamma_c\<close> of the model.
\<close>

definition gamma :: "build \<Rightarrow> (real \<Rightarrow> real) \<Rightarrow> real \<Rightarrow> (exception + real) option" where
  "gamma b lgamma_c x =
     (if x \<le> 0 then Some (Inl invalid_argument)
      else if x < 0.001 then Some (Inr (1 / (x * (1 + euler_gamma * x))))
      else if x < 12 then
        (let arg_was_less_than_one = (x < 1);
             n = (if arg_was_less_than_one then 0 else \<lfloor>x\<rfloor> - 1);
             y = (if arg_was_less_than_one then x + 1 else x - of_int n);
             z = y - 1;
             (num, den) = gamma_num_den z;
             result = num / den + 1
         in if arg_was_less_than_one then Some (Inr (result / (y - 1)))
            else Some (Inr (gamma_shift_up n result y)))
      else if x > 171.624 then Some (Inr (DBL_MAX * 2))
      else map_option Inr (fims_exp b (lgamma_c x)))"


section \<open>Notions used in the statements\<close>

text \<open>
  The largest row size among the first \<open>n\<close> rows of a season-offset table, \<open>0\<close> for
  \<open>n = 0\<close>. This is the specification's "maximum over the years of the season count",
  written independently of the constructor's loop.
\<close>

definition row_max :: "real list list \<Rightarrow> nat \<Rightarrow> nat" where
  "row_max offs n = Max (insert 0 ((\<lambda>y. length (offs ! y)) ` {..<n}))"

subsection \<open>Concrete grids\<close>

text \<open>The grid made by \<^verbatim>\<open>model_base(2, 2, 2)\<close> when the counter \<^verbatim>\<open>id_g\<close> is \<open>0\<close>.\<close>

definition grid_2_2_2 :: model_base where
  "grid_2_2_2 = \<lparr>nyears = 2, nseasons = Some 2, nages = 2,
       season_offsets = [[1 / 2, 1], [1 / 2, 1]], seasons_max = 2, object_id = 0\<rparr>"

text \<open>The grid made by \<^verbatim>\<open>model_base(2, 2, 9223372036854775808)\<close>: two years, two seasons, \<open>2 ^ 63\<close> ages.\<close>

definition grid_2_2_big :: model_base where
  "grid_2_2_big = \<lparr>nyears = 2, nseasons = Some 2, nages = 2 ^ 63,
       season_offsets = [[1 / 2, 1], [1 / 2, 1]], seasons_max = 2, object_id = 0\<rparr>"

text \<open>
  A variable-season grid of one year whose table has a second row: the constructor takes
  any table with at least \<^verbatim>\<open>nyears\<close> rows.
\<close>

definition grid_extra_row :: model_base where
  "grid_extra_row = \<lparr>nyears = 1, nseasons = None, nages = 1,
       season_offsets = [[1 / 2], [1 / 3, 2 / 3]], seasons_max = 1, object_id = 0\<rparr>"

subsection \<open>The first example of \<^verbatim>\<open>main\<close>\<close>

text \<open>
  \<^verbatim>\<open>main\<close> constructs a population with fixed seasons, partitions it, evaluates it and
  finalizes it; the result is what \<^verbatim>\<open>population::finalize()\<close> prints.
\<close>

definition fixed_seasons_example ::
  "nat \<Rightarrow> nat \<Rightarrow> nat \<Rightarrow> real list \<Rightarrow> nat \<Rightarrow> area list \<Rightarrow> nat
     \<Rightarrow> fault + (nat \<times> report_record list) list" where
  "fixed_seasons_example ny ns na ags n ars g =
     (case population_fixed ny ns na ags g of
        Inl f \<Rightarrow> Inl f
      | Inr st \<Rightarrow>
          (case initialize_subpopulations n ars st of
             Inl f \<Rightarrow> Inl f
           | Inr (p, g') \<Rightarrow>
               (case evaulate_subpopulations p of
                  Inl f \<Rightarrow> Inl f
                | Inr p' \<Rightarrow> population_finalize p')))"

subsection \<open>Invariants\<close>

text \<open>
  The grid part of an object, without what the derived classes add: \<^verbatim>\<open>nyears_\<close>,
  \<^verbatim>\<open>nseasons_\<close>, \<^verbatim>\<open>nages_\<close>, \<^verbatim>\<open>season_offsets_\<close>, \<^verbatim>\<open>seasons_max_\<close> and the
  \<open>object_id\<close>.
\<close>

definition time_grid :: "'a model_base_scheme \<Rightarrow> model_base" where
  "time_grid m = model_base.truncate m"

text \<open>
  \<^verbatim>\<open>seasons_max_\<close> is the maximum of \<^verbatim>\<open>get_seasons(y)\<close> over the years of the grid,
  and 0 when there is no year.
\<close>

definition max_season_inv :: "'a model_base_scheme \<Rightarrow> bool" where
  "max_season_inv m \<longleftrightarrow>
     (\<forall>y<nyears m. \<not> isl (get_seasons m y))
     \<and> seasons_max m =
         (if nyears m = 0 then 0 else Max ((\<lambda>y. projr (get_seasons m y)) ` {..<nyears m}))"

text \<open>
  What the variable-season constructor is to make of its arguments \<^verbatim>\<open>nyears\<close>,
  \<^verbatim>\<open>season_offsets\<close> and \<^verbatim>\<open>nages\<close>: the table covers the years, the grid holds the
  three arguments as they were supplied and no fixed season count, \<^verbatim>\<open>get_seasons(y)\<close> is
  the size of row \<open>y\<close> of the supplied table for every year of the grid, and
  \<^verbatim>\<open>seasons_max_\<close> is the largest size among the first \<^verbatim>\<open>nyears\<close> rows of the supplied
  table, 0 when there is no year.
\<close>

definition built_on_table :: "'a model_base_scheme \<Rightarrow> nat \<Rightarrow> real list list \<Rightarrow> nat \<Rightarrow> bool" where
  "built_on_table m ny offs na \<longleftrightarrow>
     ny \<le> length offs
     \<and> nyears m = ny \<and> nseasons m = None \<and> nages m = na \<and> season_offsets m = offs
     \<and> (\<forall>y<ny. get_seasons m y = Inr (length (offs ! y)))
     \<and> seasons_max m = (if ny = 0 then 0 else Max ((\<lambda>y. length (offs ! y)) ` {..<ny}))"

text \<open>A property of every subpopulation a population holds.\<close>

definition all_sub_pops :: "(subpopulation \<Rightarrow> bool) \<Rightarrow> population \<Rightarrow> bool" where
  "all_sub_pops R p \<longleftrightarrow>
     (\<forall>i sub_pops. subpopulation_map p i = Some sub_pops \<longrightarrow> (\<forall>sp\<in>set sub_pops. R sp))"

definition all_grids_inv :: "population \<Rightarrow> bool" where
  "all_grids_inv p \<longleftrightarrow> max_season_inv p \<and> all_sub_pops max_season_inv p"

text \<open>
  A subpopulation's array has \<open>yearCount * maxSeasonCount * ageCount\<close> cells for the
  dimensions of the population \<open>p\<close>, and every offset that
  \<^verbatim>\<open>evaulate_subpopulations\<close> computes on the grid of \<open>p\<close>, for a year below the year
  count, a season below \<^verbatim>\<open>get_seasons\<close> of the year and an age below the age count, is
  below the size of the array.
\<close>

definition sub_pop_in_bounds :: "population \<Rightarrow> subpopulation \<Rightarrow> bool" where
  "sub_pop_in_bounds p sp \<longleftrightarrow>
     length (some_derived_quantities sp) = nyears p * seasons_max p * nages p
     \<and> (\<forall>y s a k. y < nyears p \<and> get_seasons p y = Inr k \<and> s < k \<and> a < nages p
          \<longrightarrow> get_index p y s a < length (some_derived_quantities sp))"

definition cells_in_bounds :: "population \<Rightarrow> bool" where
  "cells_in_bounds p \<longleftrightarrow> all_sub_pops (sub_pop_in_bounds p) p"

text \<open>The areas to which the subpopulations of sex \<open>i\<close> are bound, in the order of the vector.\<close>

definition bound_areas :: "population \<Rightarrow> nat \<Rightarrow> area option list" where
  "bound_areas p i = map area_ptr (sub_pops_at (subpopulation_map p) i)"

text \<open>The number of subpopulations a population holds, over all sexes.\<close>

definition subpopulation_count :: "population \<Rightarrow> nat" where
  "subpopulation_count p =
     (\<Sum>i\<in>dom (subpopulation_map p). length (sub_pops_at (subpopulation_map p) i))"

subsection \<open>Concrete populations\<close>

text \<open>Two areas of one year, one season and one age, made one after the other.\<close>

definition area_0 :: area where
  "area_0 = \<lparr>nyears = 1, nseasons = Some 1, nages = 1, season_offsets = [[1]],
       seasons_max = 1, object_id = 0\<rparr>"

definition area_1 :: area where
  "area_1 = \<lparr>nyears = 1, nseasons = Some 1, nages = 1, season_offsets = [[1]],
       seasons_max = 1, object_id = 1\<rparr>"

text \<open>The population \<^verbatim>\<open>population(1, 1, 1, {1})\<close> made next, with the counter at 2.\<close>

definition pop_1_1_1 :: population where
  "pop_1_1_1 = \<lparr>nyears = 1, nseasons = Some 1, nages = 1, season_offsets = [[1]],
       seasons_max = 1, object_id = 2, ages = [1],
       areas = [], subpopulation_map = Map.empty, nsexes = None\<rparr>"

text \<open>
  The population \<^verbatim>\<open>population(2, 2, 2, {1, 2})\<close> made with the counter at 1, the
  subpopulation its partitioning makes, and the population once partitioned into one
  sex and the single area \<open>area_0\<close>.
\<close>

definition pop_2_2_2 :: population where
  "pop_2_2_2 = \<lparr>nyears = 2, nseasons = Some 2, nages = 2,
       season_offsets = [[1 / 2, 1], [1 / 2, 1]], seasons_max = 2, object_id = 1,
       ages = [1, 2], areas = [], subpopulation_map = Map.empty, nsexes = None\<rparr>"

definition sub_2_2_2 :: subpopulation where
  "sub_2_2_2 = \<lparr>nyears = 2, nseasons = None, nages = 2,
       season_offsets = [[1 / 2, 1], [1 / 2, 1]], seasons_max = 2, object_id = 2,
       ages = [], some_derived_quantities = [0, 0, 0, 0, 0, 0, 0, 0],
       area_ptr = Some area_0\<rparr>"

definition pop_2_2_2_partitioned :: population where
  "pop_2_2_2_partitioned =
     pop_2_2_2\<lparr>areas := [area_0], subpopulation_map := [0 \<mapsto> [sub_2_2_2]],
               nsexes := Some 1\<rparr>"

text \<open>
  The same with \<open>2 ^ 63\<close> age classes and the variable-season constructor: the product
  \<^verbatim>\<open>nyears * seasons_max_ * nages\<close> is \<open>2 ^ 65\<close>, which is 0 in \<^verbatim>\<open>size_t\<close>, so the
  subpopulation's array is empty.
\<close>

definition pop_big :: population where
  "pop_big = \<lparr>nyears = 2, nseasons = None, nages = 2 ^ 63,
       season_offsets = [[1 / 2, 1], [1 / 2, 1]], seasons_max = 2, object_id = 1,
       ages = [], areas = [], subpopulation_map = Map.empty, nsexes = None\<rparr>"

definition sub_big :: subpopulation where
  "sub_big = \<lparr>nyears = 2, nseasons = None, nages = 2 ^ 63,
       season_offsets = [[1 / 2, 1], [1 / 2, 1]], seasons_max = 2, object_id = 2,
       ages = [], some_derived_quantities = [], area_ptr = Some area_0\<rparr>"

definition pop_big_partitioned :: population where
  "pop_big_partitioned =
     pop_big\<lparr>areas := [area_0], subpopulation_map := [0 \<mapsto> [sub_big]], nsexes := Some 1\<rparr>"

text \<open>
  A variable-season grid whose year 0 has one season and whose year 1 has three, with one
  age class: the grid itself, the population on it made with the counter at 1, the
  subpopulation its partitioning makes, and the population once partitioned into one sex
  and the single area \<open>area_0\<close>.
\<close>

definition offsets_1_3 :: "real list list" where
  "offsets_1_3 = [[1], [1 / 3, 2 / 3, 1]]"

definition grid_1_3 :: model_base where
  "grid_1_3 = \<lparr>nyears = 2, nseasons = None, nages = 1, season_offsets = offsets_1_3,
       seasons_max = 3, object_id = 0\<rparr>"

definition pop_1_3 :: population where
  "pop_1_3 = \<lparr>nyears = 2, nseasons = None, nages = 1, season_offsets = offsets_1_3,
       seasons_max = 3, object_id = 1, ages = [],
       areas = [], subpopulation_map = Map.empty, nsexes = None\<rparr>"

definition sub_1_3 :: subpopulation where
  "sub_1_3 = \<lparr>nyears = 2, nseasons = None, nages = 1, season_offsets = offsets_1_3,
       seasons_max = 3, object_id = 2, ages = [],
       some_derived_quantities = [0, 0, 0, 0, 0, 0], area_ptr = Some area_0\<rparr>"

definition pop_1_3_partitioned :: population where
  "pop_1_3_partitioned =
     pop_1_3\<lparr>areas := [area_0], subpopulation_map := [0 \<mapsto> [sub_1_3]], nsexes := Some 1\<rparr>"

text \<open>
  After \<^verbatim>\<open>evaulate_subpopulations\<close>: the cells of year 0, season 0 and of year 1,
  seasons 0 to 2 hold their offsets 0, 3, 4 and 5; the cells 1 and 2, which pad year 0,
  are never written.
\<close>

definition sub_1_3_evaluated :: subpopulation where
  "sub_1_3_evaluated = sub_1_3\<lparr>some_derived_quantities := [0, 0, 0, 3, 4, 5]\<rparr>"

definition pop_1_3_evaluated :: population where
  "pop_1_3_evaluated = pop_1_3_partitioned\<lparr>subpopulation_map := [0 \<mapsto> [sub_1_3_evaluated]]\<rparr>"

section \<open>Loops\<close>

lemma for_each_append:
  "for_each (xs @ ys) body st =
     (case for_each xs body st of Inl f \<Rightarrow> Inl f | Inr st' \<Rightarrow> for_each ys body st')"
  by (induction xs arbitrary: st) (auto split: sum.splits)

text \<open>An invariant that may mention the loop counter holds after the loop.\<close>

lemma for_each_upt_inv:
  assumes "for_each [0..<n] body st = Inr st'"
    and "P 0 st"
    and "\<And>i s s'. i < n \<Longrightarrow> P i s \<Longrightarrow> body i s = Inr s' \<Longrightarrow> P (Suc i) s'"
  shows "P n st'"
  using assms
proof (induction n arbitrary: st')
  case 0
  then show ?case by simp
next
  case (Suc n)
  from Suc.prems(1) obtain mid where mid: "for_each [0..<n] body st = Inr mid"
    and last: "body n mid = Inr st'"
    by (auto simp: for_each_append split: sum.splits)
  have "P n mid"
    using mid Suc.prems(2) Suc.prems(3) by (intro Suc.IH) auto
  then show ?case
    using last Suc.prems(3) by blast
qed

text \<open>If every iteration returns and keeps the invariant, the loop returns.\<close>

lemma for_each_upt_total:
  assumes "P 0 st"
    and "\<And>i s. i < n \<Longrightarrow> P i s \<Longrightarrow> \<exists>s'. body i s = Inr s' \<and> P (Suc i) s'"
  shows "\<exists>st'. for_each [0..<n] body st = Inr st' \<and> P n st'"
  using assms
proof (induction n)
  case 0
  then show ?case by simp
next
  case (Suc n)
  have "\<exists>mid. for_each [0..<n] body st = Inr mid \<and> P n mid"
    using Suc.prems by (intro Suc.IH) auto
  then obtain mid where mid: "for_each [0..<n] body st = Inr mid" and "P n mid"
    by blast
  then obtain st' where "body n mid = Inr st'" and "P (Suc n) st'"
    using Suc.prems(2) by blast
  with mid show ?case
    by (auto simp: for_each_append)
qed

lemma for_each_int_Inr:
  "for_each_int n body st = Inr st' \<longleftrightarrow> for_each [0..<n] body st = Inr st' \<and> n \<le> INT_MAX"
  by (auto simp: for_each_int_def split: sum.splits if_splits)

lemma for_each_first_fault:
  assumes "0 < n" and "body 0 st = Inl f"
  shows "for_each [0..<n] body st = Inl f"
  using assms by (simp add: upt_conv_Cons)

text \<open>Rules that let the simplifier run the definitions on numerals.\<close>

lemma replicate_numeral_eval: "replicate (numeral k) x = x # replicate (pred_numeral k) x"
  by (simp add: numeral_eq_Suc)

lemmas size_eval = size_add_def size_mul_def SIZE_WIDTH_def next_id_def INT_MAX_def

lemmas loop_eval = for_each_int_def upt_rec replicate_numeral_eval

lemmas grid_eval = model_base_fixed_def model_base_variable_def push_fixed_row_def
  fixed_row_def max_season_step_def area_fixed_def

section \<open>The constructors of the grid\<close>

lemma fixed_rows:
  assumes "for_each [0..<ny] (push_fixed_row ns) (replicate ny []) = Inr offs"
  shows "length offs = ny \<and> (\<forall>y<ny. length (offs ! y) = ns)"
proof -
  define P where "P k (st :: real list list) \<longleftrightarrow>
      length st = ny \<and> (\<forall>y<k. length (st ! y) = ns) \<and> (\<forall>y. k \<le> y \<and> y < ny \<longrightarrow> st ! y = [])"
    for k st
  have "P ny offs"
  proof (rule for_each_upt_inv [OF assms])
    show "P 0 (replicate ny [])"
      by (simp add: P_def)
  next
    fix i s s'
    assume "i < ny" and "P i s" and "push_fixed_row ns i s = Inr s'"
    then show "P (Suc i) s'"
      by (auto simp: P_def push_fixed_row_def fixed_row_def nth_list_update less_Suc_eq
          split: if_splits)
  qed
  then show ?thesis
    by (simp add: P_def)
qed

lemma model_base_fixed_Inr:
  assumes "model_base_fixed ny ns na g = Inr (m, g')"
  shows "nyears m = ny" and "nseasons m = Some ns" and "nages m = na"
    and "seasons_max m = ns" and "object_id m = g" and "g' = next_id g"
    and "length (season_offsets m) = ny"
    and "\<And>y. y < ny \<Longrightarrow> length (season_offsets m ! y) = ns"
proof -
  from assms obtain offs where
    loop: "for_each [0..<ny] (push_fixed_row ns) (replicate ny []) = Inr offs"
    and m: "m = \<lparr>nyears = ny, nseasons = Some ns, nages = na, season_offsets = offs,
                  seasons_max = ns, object_id = g\<rparr>"
    and g': "g' = next_id g"
    by (auto simp: model_base_fixed_def for_each_int_Inr split: sum.splits)
  show "nyears m = ny" "nseasons m = Some ns" "nages m = na" "seasons_max m = ns"
    "object_id m = g" "g' = next_id g"
    using m g' by simp_all
  show "length (season_offsets m) = ny"
    using fixed_rows [OF loop] m by simp
  show "length (season_offsets m ! y) = ns" if "y < ny" for y
    using fixed_rows [OF loop] m that by simp
qed

lemma row_max_Suc: "row_max offs (Suc n) = max (row_max offs n) (length (offs ! n))"
proof -
  let ?f = "\<lambda>y. length (offs ! y)"
  have "insert 0 (?f ` {..<Suc n}) = insert (?f n) (insert 0 (?f ` {..<n}))"
    by (auto simp: lessThan_Suc)
  moreover have "Max (insert (?f n) (insert 0 (?f ` {..<n})))
                 = max (?f n) (Max (insert 0 (?f ` {..<n})))"
    by (rule Max_insert) simp_all
  ultimately show ?thesis
    by (simp add: row_max_def max.commute)
qed

lemma max_season_loop:
  "for_each [0..<n] (max_season_step offs) 0 =
     (if n \<le> length offs then Inr (row_max offs n) else Inl out_of_range)"
proof (induction n)
  case 0
  then show ?case by (simp add: row_max_def)
next
  case (Suc n)
  then show ?case
    by (auto simp: for_each_append max_season_step_def row_max_Suc split: sum.splits)
qed

lemma model_base_variable_eq:
  "model_base_variable ny offs na g =
     (if ny \<le> length offs
      then Inr (\<lparr>nyears = ny, nseasons = None, nages = na, season_offsets = offs,
                 seasons_max = row_max offs ny, object_id = g\<rparr>, next_id g)
      else Inl out_of_range)"
  by (simp add: model_base_variable_def max_season_loop)

lemma grid_2_2_2_built: "model_base_fixed 2 2 2 0 = Inr (grid_2_2_2, 1)"
  by (simp add: grid_2_2_2_def grid_eval loop_eval size_eval)

lemma grid_2_2_big_built: "model_base_fixed 2 2 (2 ^ 63) 0 = Inr (grid_2_2_big, 1)"
  by (simp add: grid_2_2_big_def grid_eval loop_eval size_eval)

lemma grid_extra_row_built:
  "model_base_variable 1 [[1 / 2], [1 / 3, 2 / 3]] 1 0 = Inr (grid_extra_row, 1)"
  by (simp add: grid_extra_row_def grid_eval loop_eval size_eval)

section \<open>Folded indices\<close>

lemma get_index_mod:
  "get_index m y s a = (y * seasons_max m * nages m + s * nages m + a) mod 2 ^ 64"
  by (simp add: get_index_def size_add_def size_mul_def SIZE_WIDTH_def mod_simps)

lemma get_index2_mod:
  "get_index2 m y s = (y * seasons_max m * nages m + s) mod 2 ^ 64"
  by (simp add: get_index2_def size_add_def size_mul_def SIZE_WIDTH_def mod_simps)

lemma cell_below_size:
  fixes y s a ny smax na :: nat
  assumes "y < ny" and "s < smax" and "a < na"
  shows "y * smax * na + s * na + a < ny * smax * na"
proof -
  have "s * na + a < Suc s * na"
    using assms(3) by simp
  also have "\<dots> \<le> smax * na"
    using assms(2) by (intro mult_le_mono1) simp
  finally have inner: "s * na + a < smax * na" .
  have "y * smax * na + smax * na = Suc y * (smax * na)"
    by (simp add: algebra_simps)
  also have "\<dots> \<le> ny * (smax * na)"
    using assms(1) by (intro mult_le_mono1) simp
  finally have "y * smax * na + smax * na \<le> ny * smax * na"
    by (simp add: mult.assoc)
  with inner show ?thesis by linarith
qed

lemma get_index_formula_aux:
  assumes "nyears m * seasons_max m * nages m \<le> 2 ^ 64"
    and "y < nyears m" and "s < seasons_max m" and "a < nages m"
  shows "get_index m y s a = y * seasons_max m * nages m + s * nages m + a"
proof -
  have "y * seasons_max m * nages m + s * nages m + a < nyears m * seasons_max m * nages m"
    using assms(2-4) by (rule cell_below_size)
  with assms(1) have "y * seasons_max m * nages m + s * nages m + a < 2 ^ 64"
    by linarith
  then show ?thesis
    by (simp add: get_index_mod)
qed

text \<open>
  C2, as the code has it. \<^verbatim>\<open>get_index(year, season, age)\<close> returns
  \<open>year * maxSeasonCount * ageCount + season * ageCount + age\<close> reduced modulo \<open>2 ^ 64\<close>, the
  arithmetic being that of \<^verbatim>\<open>size_t\<close>. It returns the number itself for every year
  below \<open>yearCount\<close>, season below \<open>maxSeasonCount\<close> and age below \<open>ageCount\<close> of every grid
  whose cell count \<open>yearCount * maxSeasonCount * ageCount\<close> is at most \<open>2 ^ 64\<close>, since then
  every offset fits \<^verbatim>\<open>size_t\<close>.
\<close>

theorem get_index_formula:
  "get_index m year season age
     = (year * seasons_max m * nages m + season * nages m + age) mod 2 ^ 64
   \<and> (nyears m * seasons_max m * nages m \<le> 2 ^ 64
        \<and> year < nyears m \<and> season < seasons_max m \<and> age < nages m
      \<longrightarrow> get_index m year season age
            = year * seasons_max m * nages m + season * nages m + age)"
proof (intro conjI impI)
  show "get_index m year season age
        = (year * seasons_max m * nages m + season * nages m + age) mod 2 ^ 64"
    by (rule get_index_mod)
next
  assume "nyears m * seasons_max m * nages m \<le> 2 ^ 64
      \<and> year < nyears m \<and> season < seasons_max m \<and> age < nages m"
  then show "get_index m year season age
             = year * seasons_max m * nages m + season * nages m + age"
    by (intro get_index_formula_aux) simp_all
qed

text \<open>The last cell of the grid of two years, two seasons and two ages has offset 7.\<close>

theorem get_index_formula_witness:
  "nyears grid_2_2_2 * seasons_max grid_2_2_2 * nages grid_2_2_2 \<le> 2 ^ 64
   \<and> 1 < nyears grid_2_2_2 \<and> 1 < seasons_max grid_2_2_2 \<and> 1 < nages grid_2_2_2
   \<and> get_index grid_2_2_2 1 1 1 = 7"
proof -
  have dims: "nyears grid_2_2_2 * seasons_max grid_2_2_2 * nages grid_2_2_2 \<le> 2 ^ 64
      \<and> 1 < nyears grid_2_2_2 \<and> 1 < seasons_max grid_2_2_2 \<and> 1 < nages grid_2_2_2"
    by (simp add: grid_2_2_2_def)
  then have "get_index grid_2_2_2 1 1 1
             = 1 * seasons_max grid_2_2_2 * nages grid_2_2_2 + 1 * nages grid_2_2_2 + 1"
    using get_index_formula [of grid_2_2_2 1 1 1] by blast
  then have "get_index grid_2_2_2 1 1 1 = 7"
    by (simp add: grid_2_2_2_def)
  with dims show ?thesis
    by blast
qed

text \<open>
  C2 as stated, for every grid, fails where the offset does not fit \<^verbatim>\<open>size_t\<close>: on
  the grid built by \<^verbatim>\<open>model_base(2, 2, 2^63)\<close>, year 1, season 1 and age 0 are within
  the dimensions, the formula gives \<open>3 \<sqdot> 2 ^ 63\<close>, and \<^verbatim>\<open>get_index\<close> returns \<open>2 ^ 63\<close>.
\<close>

theorem get_index_formula_counterexample:
  "model_base_fixed 2 2 (2 ^ 63) 0 = Inr (grid_2_2_big, 1)
   \<and> 1 < nyears grid_2_2_big \<and> 1 < seasons_max grid_2_2_big \<and> 0 < nages grid_2_2_big
   \<and> get_index grid_2_2_big 1 1 0 = 2 ^ 63
   \<and> get_index grid_2_2_big 1 1 0
       \<noteq> 1 * seasons_max grid_2_2_big * nages grid_2_2_big + 1 * nages grid_2_2_big + 0"
  using grid_2_2_big_built by (simp add: grid_2_2_big_def get_index_mod)

text \<open>
  C3, as the code has it. The two-argument \<^verbatim>\<open>get_index(year, season)\<close> adds the season
  itself, not the season times the age count, to the year's stride. For every year, season
  and age within the dimensions of a grid whose offsets fit \<^verbatim>\<open>size_t\<close>:
  \<open>index3(y, s, a) = index2(y, s) + s * (ageCount - 1) + a\<close>, and the decomposition
  \<open>index3(y, s, a) = index2(y, s) + a\<close> holds exactly when the season is 0 or the grid
  has a single age class.
\<close>

theorem stride_decomposition:
  assumes "nyears m * seasons_max m * nages m \<le> 2 ^ 64"
    and "y < nyears m" and "s < seasons_max m" and "a < nages m"
  shows "get_index m y s a = get_index2 m y s + s * (nages m - 1) + a
         \<and> (get_index m y s a = get_index2 m y s + a \<longleftrightarrow> s = 0 \<or> nages m = 1)"
proof -
  have three: "y * seasons_max m * nages m + s * nages m + a
               < nyears m * seasons_max m * nages m"
    using assms(2-4) by (rule cell_below_size)
  have split: "s * nages m = s + s * (nages m - 1)"
    using assms(4) by (cases "nages m") simp_all
  have "y * seasons_max m * nages m + s < 2 ^ 64"
    using three assms(1) split by linarith
  then have i2: "get_index2 m y s = y * seasons_max m * nages m + s"
    by (simp add: get_index2_mod)
  have "y * seasons_max m * nages m + s * nages m + a < 2 ^ 64"
    using three assms(1) by linarith
  then have i3: "get_index m y s a = y * seasons_max m * nages m + s * nages m + a"
    by (simp add: get_index_mod)
  have general: "get_index m y s a = get_index2 m y s + s * (nages m - 1) + a"
    using i2 i3 split by simp
  have "s * (nages m - 1) = 0 \<longleftrightarrow> s = 0 \<or> nages m = 1"
    using assms(4) by auto
  with general show ?thesis
    by auto
qed

text \<open>
  On the grid of two years, two seasons and two ages, the cell of year 1, season 1, age 1:
  the three-argument offset is 7, the two-argument one is 5.
\<close>

theorem stride_decomposition_witness:
  "nyears grid_2_2_2 * seasons_max grid_2_2_2 * nages grid_2_2_2 \<le> 2 ^ 64
   \<and> 1 < nyears grid_2_2_2 \<and> 1 < seasons_max grid_2_2_2 \<and> 1 < nages grid_2_2_2
   \<and> get_index grid_2_2_2 1 1 1 = get_index2 grid_2_2_2 1 1 + 1 * (nages grid_2_2_2 - 1) + 1
   \<and> get_index grid_2_2_2 1 1 1 \<noteq> get_index2 grid_2_2_2 1 1 + 1"
proof -
  have h1: "nyears grid_2_2_2 * seasons_max grid_2_2_2 * nages grid_2_2_2 \<le> 2 ^ 64"
    and h2: "1 < nyears grid_2_2_2" and h3: "1 < seasons_max grid_2_2_2"
    and h4: "1 < nages grid_2_2_2"
    by (simp_all add: grid_2_2_2_def)
  show ?thesis
    using stride_decomposition [OF h1 h2 h3 h4] h1 h2 h3 h4 by (simp add: grid_2_2_2_def)
qed

text \<open>
  C3 as stated fails on the grid built by \<^verbatim>\<open>model_base(2, 2, 2)\<close> at year 0, season 1,
  age 0, all within the dimensions: \<^verbatim>\<open>get_index(0, 1, 0)\<close> is 2 and
  \<^verbatim>\<open>get_index(0, 1)\<close> plus the age is 1.
\<close>

theorem stride_decomposition_counterexample:
  "model_base_fixed 2 2 2 0 = Inr (grid_2_2_2, 1)
   \<and> 0 < nyears grid_2_2_2 \<and> 1 < seasons_max grid_2_2_2 \<and> 0 < nages grid_2_2_2
   \<and> get_index grid_2_2_2 0 1 0 = 2
   \<and> get_index2 grid_2_2_2 0 1 + 0 = 1
   \<and> get_index grid_2_2_2 0 1 0 \<noteq> get_index2 grid_2_2_2 0 1 + 0"
  using grid_2_2_2_built by (simp add: grid_2_2_2_def get_index_mod get_index2_mod)

section \<open>Seasons of a year\<close>

text \<open>
  C7, as the code has it. On a grid built by the fixed-season constructor,
  \<^verbatim>\<open>get_seasons(year)\<close> returns the season count for every year below the year count.
  On a grid built by the variable-season constructor the table has at least as many rows
  as there are years, and \<^verbatim>\<open>get_seasons(year)\<close> returns the size of row \<open>year\<close> for
  every year below the number of rows of the table, whether or not the year is below
  the year count. The function never compares the year with the year count.
\<close>

theorem get_seasons_in_table:
  "(model_base_fixed ny ns na g = Inr (m, g')
      \<longrightarrow> (\<forall>year<nyears m. get_seasons m year = Inr ns))
   \<and> (model_base_variable ny offs na g = Inr (m, g')
      \<longrightarrow> nyears m \<le> length offs
          \<and> (\<forall>year<length offs. get_seasons m year = Inr (length (offs ! year))))"
proof (intro conjI impI allI)
  fix year
  assume built: "model_base_fixed ny ns na g = Inr (m, g')" and "year < nyears m"
  then have "year < length (season_offsets m)" and "length (season_offsets m ! year) = ns"
    using model_base_fixed_Inr [OF built] by simp_all
  then show "get_seasons m year = Inr ns"
    by (simp add: get_seasons_def)
next
  assume "model_base_variable ny offs na g = Inr (m, g')"
  then show "nyears m \<le> length offs"
    by (auto simp: model_base_variable_eq split: if_splits)
next
  fix year
  assume "model_base_variable ny offs na g = Inr (m, g')" and "year < length offs"
  then show "get_seasons m year = Inr (length (offs ! year))"
    by (auto simp: model_base_variable_eq get_seasons_def split: if_splits)
qed

text \<open>
  Both constructors at work: year 1 of the grid of two years with two seasons each, and
  year 0 of the one-year grid whose table has the rows \<open>[1/2]\<close> and \<open>[1/3, 2/3]\<close>.
\<close>

theorem get_seasons_in_table_witness:
  "model_base_fixed 2 2 2 0 = Inr (grid_2_2_2, 1)
   \<and> 1 < nyears grid_2_2_2
   \<and> get_seasons grid_2_2_2 1 = Inr 2
   \<and> model_base_variable 1 [[1 / 2], [1 / 3, 2 / 3]] 1 0 = Inr (grid_extra_row, 1)
   \<and> 0 < length [[1 / 2 :: real], [1 / 3, 2 / 3]]
   \<and> get_seasons grid_extra_row 0 = Inr 1"
proof -
  have fixed: "\<forall>year<nyears grid_2_2_2. get_seasons grid_2_2_2 year = Inr 2"
    using get_seasons_in_table [where ny = 2 and ns = 2 and na = 2 and g = 0
        and m = grid_2_2_2 and g' = 1] grid_2_2_2_built by blast
  have year1: "1 < nyears grid_2_2_2"
    by (simp add: grid_2_2_2_def)
  have variable: "\<forall>year<length [[1 / 2 :: real], [1 / 3, 2 / 3]].
      get_seasons grid_extra_row year = Inr (length ([[1 / 2 :: real], [1 / 3, 2 / 3]] ! year))"
    using get_seasons_in_table [where ny = 1 and offs = "[[1 / 2], [1 / 3, 2 / 3]]" and na = 1
        and g = 0 and m = grid_extra_row and g' = 1]
      grid_extra_row_built by blast
  have "get_seasons grid_extra_row 0 = Inr 1"
    using variable by simp
  moreover have "get_seasons grid_2_2_2 1 = Inr 2"
    using fixed year1 by blast
  ultimately show ?thesis
    using grid_2_2_2_built grid_extra_row_built year1 by simp
qed

text \<open>
  C7 as stated fails for a year that is not below the year count: the one-year grid
  built from a table of two rows answers \<^verbatim>\<open>get_seasons(1)\<close> with 2, the size of the
  second row, and no error.
\<close>

theorem get_seasons_in_table_counterexample:
  "model_base_variable 1 [[1 / 2], [1 / 3, 2 / 3]] 1 0 = Inr (grid_extra_row, 1)
   \<and> nyears grid_extra_row \<le> 1
   \<and> get_seasons grid_extra_row 1 = Inr 2"
  using grid_extra_row_built by (simp add: grid_extra_row_def get_seasons_def)

section \<open>The guards of \<^verbatim>\<open>gamma\<close> and \<^verbatim>\<open>dlnorm\<close>\<close>

lemmas gamma_eval = gamma_def gamma_num_den_def gamma_shift_up_def gamma_p_def gamma_q_def
  Let_def upt_rec

text \<open>The self-calling wrapper of the \<^verbatim>\<open>TMB_MODEL\<close> build returns for no argument.\<close>

lemma exp_TMB_MODEL_None: "exp_TMB_MODEL x = None"
proof (cases "exp_TMB_MODEL x")
  case None
  then show ?thesis .
next
  case (Some y)
  have False
  proof (rule exp_TMB_MODEL.raw_induct [where P = "\<lambda>_ _. False", OF _ Some])
    fix f :: "real \<Rightarrow> real option" and x' y'
    assume "\<And>u v. f u = Some v \<Longrightarrow> False" and "f x' = Some y'"
    then show False by blast
  qed
  then show ?thesis ..
qed

lemma fims_exp_eq: "fims_exp b x = (case b of STD_LIB \<Rightarrow> Some (exp x) | TMB_MODEL \<Rightarrow> None)"
  by (simp add: fims_exp_def exp_TMB_MODEL_None split: build.splits)

text \<open>
  In both builds \<^verbatim>\<open>gamma(x)\<close> throws \<^verbatim>\<open>std::invalid_argument\<close>, the specification's
  DomainError, if and only if \<open>x \<le> 0\<close>, and it throws nothing else.
\<close>

lemma gamma_throws_iff_nonpositive:
  "(gamma b lgamma_c x = Some (Inl invalid_argument) \<longleftrightarrow> x \<le> 0)
   \<and> gamma b lgamma_c 0 = Some (Inl invalid_argument)"
  by (auto simp add: gamma_def fims_exp_eq Let_def split: prod.splits build.splits)

text \<open>
  Where \<^verbatim>\<open>gamma\<close> returns a value for a positive argument: everywhere in the
  \<^verbatim>\<open>STD_LIB\<close> build; below 12 and above 171.624 in the \<^verbatim>\<open>TMB_MODEL\<close> build, and
  nowhere in between.
\<close>

lemma gamma_positive_STD_LIB:
  assumes "0 < x"
  shows "\<exists>v. gamma STD_LIB lgamma_c x = Some (Inr v)"
  using assms by (auto simp add: gamma_def fims_exp_eq Let_def split: prod.splits)

lemma gamma_positive_TMB_MODEL:
  assumes "0 < x"
  shows "if 12 \<le> x \<and> x \<le> 171.624 then gamma TMB_MODEL lgamma_c x = None
         else (\<exists>v. gamma TMB_MODEL lgamma_c x = Some (Inr v))"
  using assms by (auto simp add: gamma_def fims_exp_eq Let_def split: prod.splits)

text \<open>
  At 5 the reduction to the interval (1, 2) lands on 1, where the rational approximation
  is exactly 1, and the product \<open>1 * 2 * 3 * 4\<close> gives 24, in either build.
\<close>

lemma gamma_5: "gamma b lgamma_c 5 = Some (Inr 24)"
  by (simp add: gamma_eval)

text \<open>
  C8 at a concrete input. The claim's first half holds as stated (lemma
  \<open>gamma_throws_iff_nonpositive\<close> above). Its second half, that every positive argument
  gets a value, holds in the \<^verbatim>\<open>STD_LIB\<close> build and fails in the \<^verbatim>\<open>TMB_MODEL\<close> build:
  \<^verbatim>\<open>gamma(12)\<close> neither throws nor returns there, because it reaches
  \<^verbatim>\<open>exp(lgamma(x))\<close> and that build's \<^verbatim>\<open>fims::exp\<close> calls itself, where the
  \<^verbatim>\<open>STD_LIB\<close> one calls \<^verbatim>\<open>std::exp\<close> and \<^verbatim>\<open>gamma(12)\<close> returns
  \<open>exp (lgamma_c 12)\<close>.
\<close>

theorem gamma_12_TMB_MODEL_does_not_return:
  "(0 :: real) < 12
   \<and> gamma TMB_MODEL lgamma_c 12 = None
   \<and> gamma STD_LIB lgamma_c 12 = Some (Inr (exp (lgamma_c 12)))"
  by (simp add: gamma_def fims_exp_eq)



section \<open>Constructors of the population classes\<close>

lemmas record_eval = model_base.defs population_base.defs subpopulation.defs population.defs

lemmas population_eval = population_fixed_def population_variable_def
  population_base_fixed_def population_base_variable_def
  subpopulation_fixed_def subpopulation_variable_def derived_size_def
  initialize_subpopulations_def add_subpopulation_def sub_pops_at_def
  evaulate_subpopulations_def evaluate_sex_def evaluate_sub_pop_def evaluate_year_def
  calculate_some_life_history_1_def get_seasons_def get_index_def
  population_finalize_def finalize_sub_pop_def finalize_def report_year_def report_cell_def

lemma subpopulation_variable_eq:
  "subpopulation_variable ny offs na g =
     (if ny \<le> length offs
      then Inr (\<lparr>nyears = ny, nseasons = None, nages = na, season_offsets = offs,
                 seasons_max = row_max offs ny, object_id = g, ages = [],
                 some_derived_quantities = replicate (derived_size ny (row_max offs ny) na) 0,
                 area_ptr = None\<rparr>, next_id g)
      else Inl out_of_range)"
  by (simp add: subpopulation_variable_def population_base_variable_def model_base_variable_eq
      record_eval)

lemma population_variable_eq:
  "population_variable ny offs na g =
     (if ny \<le> length offs
      then Inr (\<lparr>nyears = ny, nseasons = None, nages = na, season_offsets = offs,
                 seasons_max = row_max offs ny, object_id = g, ages = [],
                 areas = [], subpopulation_map = Map.empty, nsexes = None\<rparr>, next_id g)
      else Inl out_of_range)"
  by (simp add: population_variable_def population_base_variable_def model_base_variable_eq
      record_eval)

lemma population_fixed_Inr:
  assumes "population_fixed ny ns na ags g = Inr (p, g')"
  shows "nyears p = ny" and "nages p = na" and "seasons_max p = ns"
    and "length (season_offsets p) = ny"
    and "\<And>y. y < ny \<Longrightarrow> length (season_offsets p ! y) = ns"
    and "subpopulation_map p = Map.empty"
proof -
  from assms obtain mb where mb: "model_base_fixed ny ns na g = Inr (mb, g')"
    and p: "p = population_base.extend (model_base.extend mb (population_base.fields ags))
                  (population.fields [] Map.empty None)"
    by (auto simp: population_fixed_def population_base_fixed_def split: sum.splits)
  note facts = model_base_fixed_Inr [OF mb]
  show "nyears p = ny" "nages p = na" "seasons_max p = ns"
    "length (season_offsets p) = ny" "subpopulation_map p = Map.empty"
    using facts p by (simp_all add: record_eval)
  show "length (season_offsets p ! y) = ns" if "y < ny" for y
    using facts(8) [OF that] p by (simp add: record_eval)
qed

lemma map_upd_eq_iff: "m(k \<mapsto> a) = m(k \<mapsto> b) \<longleftrightarrow> a = b"
  by (auto dest: map_upd_eqD1)

lemma area_0_built: "area_fixed 1 1 1 0 = Inr (area_0, 1)"
  by (simp add: area_0_def grid_eval loop_eval size_eval)

lemma area_1_built: "area_fixed 1 1 1 1 = Inr (area_1, 2)"
  by (simp add: area_1_def grid_eval loop_eval size_eval)

lemma pop_1_1_1_built: "population_fixed 1 1 1 [1] 2 = Inr (pop_1_1_1, 3)"
  by (simp add: pop_1_1_1_def population_eval grid_eval loop_eval size_eval record_eval)

lemma pop_2_2_2_built: "population_fixed 2 2 2 [1, 2] 1 = Inr (pop_2_2_2, 2)"
  by (simp add: pop_2_2_2_def population_eval grid_eval loop_eval size_eval record_eval)

lemma pop_2_2_2_partitioned_built:
  "initialize_subpopulations 1 [area_0] (pop_2_2_2, 2) = Inr (pop_2_2_2_partitioned, 3)"
  by (simp add: pop_2_2_2_partitioned_def pop_2_2_2_def sub_2_2_2_def population_eval grid_eval
      loop_eval size_eval record_eval map_upd_eq_iff)

lemma pop_big_built:
  "population_variable 2 [[1 / 2, 1], [1 / 2, 1]] (2 ^ 63) 1 = Inr (pop_big, 2)"
  by (simp add: pop_big_def population_eval grid_eval loop_eval size_eval record_eval)

lemma pop_big_partitioned_built:
  "initialize_subpopulations 1 [area_0] (pop_big, 2) = Inr (pop_big_partitioned, 3)"
  by (simp add: pop_big_partitioned_def pop_big_def sub_big_def population_eval grid_eval
      loop_eval size_eval record_eval map_upd_eq_iff)

lemma grid_1_3_built: "model_base_variable 2 offsets_1_3 1 0 = Inr (grid_1_3, 1)"
  by (simp add: grid_1_3_def offsets_1_3_def grid_eval loop_eval size_eval)

lemma pop_1_3_built: "population_variable 2 offsets_1_3 1 1 = Inr (pop_1_3, 2)"
  by (simp add: pop_1_3_def offsets_1_3_def population_eval grid_eval loop_eval size_eval
      record_eval)

lemma pop_1_3_partitioned_built:
  "initialize_subpopulations 1 [area_0] (pop_1_3, 2) = Inr (pop_1_3_partitioned, 3)"
  by (simp add: pop_1_3_partitioned_def pop_1_3_def sub_1_3_def offsets_1_3_def population_eval
      grid_eval loop_eval size_eval record_eval map_upd_eq_iff)

lemma pop_1_3_evaluated_built:
  "evaulate_subpopulations pop_1_3_partitioned = Inr pop_1_3_evaluated"
  by (simp add: pop_1_3_evaluated_def sub_1_3_evaluated_def pop_1_3_partitioned_def pop_1_3_def
      sub_1_3_def offsets_1_3_def population_eval loop_eval size_eval Let_def map_upd_eq_iff)

lemma sub_1_3_evaluated_report:
  "finalize sub_1_3_evaluated = Inr [(0, 0, 0, 0), (1, 0, 0, 3), (1, 1, 0, 4), (1, 2, 0, 5)]"
  by (simp add: sub_1_3_evaluated_def sub_1_3_def offsets_1_3_def population_eval loop_eval
      size_eval Let_def)

section \<open>The worked scenario\<close>

text \<open>
  C6. A population on a fixed grid of two years, two seasons and two ages, partitioned
  into one sex and one area and then evaluated, holds a single subpopulation, and its
  report is the eight records below, in lexicographic order of (year, season, age), each
  value being the cell's folded offset. This holds for any age list, any area and any
  state of the id counter; the id printed with the report is the one following the
  population's own.
\<close>

theorem scenario_A_report:
  "fixed_seasons_example 2 2 2 ags 1 [ar] g =
     Inr [(next_id g,
           [(0, 0, 0, 0), (0, 0, 1, 1), (0, 1, 0, 2), (0, 1, 1, 3),
            (1, 0, 0, 4), (1, 0, 1, 5), (1, 1, 0, 6), (1, 1, 1, 7)])]"
  by (simp add: fixed_seasons_example_def population_eval grid_eval loop_eval record_eval
      size_add_def size_mul_def SIZE_WIDTH_def INT_MAX_def Let_def)

section \<open>The grid is never modified\<close>

lemma for_each_preserves:
  assumes "for_each xs body st = Inr st'"
    and "P st"
    and "\<And>i s s'. P s \<Longrightarrow> body i s = Inr s' \<Longrightarrow> P s'"
  shows "P st'"
  using assms(1,2)
proof (induction xs arbitrary: st)
  case Nil
  then show ?case by simp
next
  case (Cons i xs)
  from Cons.prems(1) obtain mid where "body i st = Inr mid" and "for_each xs body mid = Inr st'"
    by (auto split: sum.splits)
  then show ?case
    using Cons.IH Cons.prems(2) assms(3) by blast
qed

lemma time_grid_eq_iff:
  "time_grid m' = time_grid m \<longleftrightarrow>
     nyears m' = nyears m \<and> nseasons m' = nseasons m \<and> nages m' = nages m
     \<and> season_offsets m' = season_offsets m \<and> seasons_max m' = seasons_max m
     \<and> object_id m' = object_id m"
  by (simp add: time_grid_def model_base.truncate_def)

lemma years_covered_iff:
  "(\<forall>y<nyears m. \<not> isl (get_seasons m y)) \<longleftrightarrow> nyears m \<le> length (season_offsets m)"
proof
  assume all: "\<forall>y<nyears m. \<not> isl (get_seasons m y)"
  show "nyears m \<le> length (season_offsets m)"
  proof (rule ccontr)
    assume "\<not> nyears m \<le> length (season_offsets m)"
    then have "length (season_offsets m) < nyears m" by simp
    with all have "\<not> isl (get_seasons m (length (season_offsets m)))" by blast
    then show False by (simp add: get_seasons_def)
  qed
next
  assume "nyears m \<le> length (season_offsets m)"
  then show "\<forall>y<nyears m. \<not> isl (get_seasons m y)"
    by (simp add: get_seasons_def)
qed

lemma row_max_eq_Max:
  assumes "0 < n"
  shows "row_max offs n = Max ((\<lambda>y. length (offs ! y)) ` {..<n})"
proof -
  let ?A = "(\<lambda>y. length (offs ! y)) ` {..<n}"
  have "finite ?A" and "?A \<noteq> {}"
    using assms by auto
  then have "Max (insert 0 ?A) = max 0 (Max ?A)"
    by (rule Max_insert)
  then show ?thesis
    by (simp add: row_max_def)
qed

lemma max_season_inv_iff:
  "max_season_inv m \<longleftrightarrow>
     nyears m \<le> length (season_offsets m)
     \<and> seasons_max m = row_max (season_offsets m) (nyears m)"
proof (cases "nyears m \<le> length (season_offsets m)")
  case False
  then show ?thesis
    using years_covered_iff [of m] by (simp add: max_season_inv_def)
next
  case True
  then have rows: "(\<lambda>y. projr (get_seasons m y)) ` {..<nyears m}
                   = (\<lambda>y. length (season_offsets m ! y)) ` {..<nyears m}"
    by (intro image_cong) (auto simp: get_seasons_def)
  show ?thesis
  proof (cases "nyears m = 0")
    case True
    then show ?thesis
      by (simp add: max_season_inv_def row_max_def)
  next
    case False
    then have "row_max (season_offsets m) (nyears m)
               = Max ((\<lambda>y. length (season_offsets m ! y)) ` {..<nyears m})"
      by (intro row_max_eq_Max) simp
    with True False rows show ?thesis
      using years_covered_iff [of m] by (simp add: max_season_inv_def)
  qed
qed

lemma max_season_inv_time_grid:
  assumes "time_grid m' = time_grid m"
  shows "max_season_inv m' \<longleftrightarrow> max_season_inv m"
  using assms by (simp add: time_grid_eq_iff max_season_inv_iff)

lemma calculate_some_life_history_1_Inr:
  assumes "calculate_some_life_history_1 index sp = Inr sp'"
  shows "index < length (some_derived_quantities sp)"
    and "sp' = sp\<lparr>some_derived_quantities := (some_derived_quantities sp)[index := real index]\<rparr>"
  using assms by (auto simp: calculate_some_life_history_1_def split: if_splits)

lemma calculate_some_life_history_1_frame:
  assumes "calculate_some_life_history_1 index sp = Inr sp'"
  shows "time_grid sp' = time_grid sp"
    and "length (some_derived_quantities sp') = length (some_derived_quantities sp)"
    and "area_ptr sp' = area_ptr sp"
  using calculate_some_life_history_1_Inr [OF assms] by (simp_all add: time_grid_eq_iff)

text \<open>
  What \<^verbatim>\<open>calculate_some_life_history_1\<close> keeps true of a subpopulation,
  \<^verbatim>\<open>evaulate_subpopulations\<close> keeps true of all of them.
\<close>

lemma evaluate_year_preserves:
  assumes step: "\<And>index sp sp'. R sp \<Longrightarrow> calculate_some_life_history_1 index sp = Inr sp' \<Longrightarrow> R sp'"
    and "evaluate_year p y sp = Inr sp'" and "R sp"
  shows "R sp'"
proof -
  from assms(2) obtain k where
    loop: "for_each [0..<k]
             (\<lambda>s. for_each [0..<nages p] (\<lambda>a. calculate_some_life_history_1 (get_index p y s a)))
             sp = Inr sp'"
    by (auto simp: evaluate_year_def split: sum.splits)
  show ?thesis
  proof (rule for_each_preserves [where P = R, OF loop])
    show "R sp" by fact
  next
    fix s t t'
    assume "R t"
      and inner: "for_each [0..<nages p]
                    (\<lambda>a. calculate_some_life_history_1 (get_index p y s a)) t = Inr t'"
    show "R t'"
      by (rule for_each_preserves [where P = R, OF inner]) (use \<open>R t\<close> step in auto)
  qed
qed

lemma evaluate_sub_pop_preserves:
  assumes step: "\<And>index sp sp'. R sp \<Longrightarrow> calculate_some_life_history_1 index sp = Inr sp' \<Longrightarrow> R sp'"
    and "evaluate_sub_pop p j sub_pops = Inr sub_pops'"
    and "j < length sub_pops" and "\<forall>sp\<in>set sub_pops. R sp"
  shows "length sub_pops' = length sub_pops \<and> (\<forall>sp\<in>set sub_pops'. R sp)"
proof -
  from assms(2) obtain sp' where
    loop: "for_each [0..<nyears p] (evaluate_year p) (sub_pops ! j) = Inr sp'"
    and upd: "sub_pops' = sub_pops[j := sp']"
    by (auto simp: evaluate_sub_pop_def split: sum.splits if_splits)
  have "R (sub_pops ! j)"
    using assms(3,4) by simp
  have "R sp'"
  proof (rule for_each_preserves [where P = R, OF loop])
    show "R (sub_pops ! j)" by fact
  next
    fix y t t'
    assume "R t" and "evaluate_year p y t = Inr t'"
    then show "R t'"
      using evaluate_year_preserves [of R p y t t'] step by blast
  qed
  then show ?thesis
    using upd assms(4) set_update_subset_insert [of sub_pops j sp'] by auto
qed

lemma all_sub_pops_update:
  assumes "all_sub_pops R p" and "\<forall>sp\<in>set sub_pops'. R sp"
  shows "all_sub_pops R (p\<lparr>subpopulation_map := (subpopulation_map p)(i \<mapsto> sub_pops')\<rparr>)"
  unfolding all_sub_pops_def
proof (intro allI impI ballI)
  fix k sub_pops sp
  assume at_k: "subpopulation_map (p\<lparr>subpopulation_map := (subpopulation_map p)(i \<mapsto> sub_pops')\<rparr>) k
                = Some sub_pops"
    and mem: "sp \<in> set sub_pops"
  show "R sp"
  proof (cases "k = i")
    case True
    with at_k have "sub_pops = sub_pops'" by simp
    with mem assms(2) show ?thesis by blast
  next
    case False
    with at_k have "subpopulation_map p k = Some sub_pops" by simp
    with mem assms(1) show ?thesis
      unfolding all_sub_pops_def by blast
  qed
qed

lemma all_sub_pops_at:
  assumes "all_sub_pops R p"
  shows "\<forall>sp\<in>set (sub_pops_at (subpopulation_map p) i). R sp"
proof (cases "subpopulation_map p i")
  case None
  then show ?thesis by (simp add: sub_pops_at_def)
next
  case (Some sub_pops)
  with assms show ?thesis
    unfolding all_sub_pops_def sub_pops_at_def by simp
qed

lemma evaluate_sex_preserves:
  assumes step: "\<And>index sp sp'. R sp \<Longrightarrow> calculate_some_life_history_1 index sp = Inr sp' \<Longrightarrow> R sp'"
    and "evaluate_sex i p = Inr p'" and "all_sub_pops R p"
  shows "all_sub_pops R p'" and "time_grid p' = time_grid p"
    and "nsexes p' = nsexes p" and "areas p' = areas p"
proof -
  let ?sps = "sub_pops_at (subpopulation_map p) i"
  from assms(2) obtain sps' where
    loop: "for_each [0..<length ?sps] (evaluate_sub_pop p) ?sps = Inr sps'"
    and p': "p' = p\<lparr>subpopulation_map := (subpopulation_map p)(i \<mapsto> sps')\<rparr>"
    by (auto simp: evaluate_sex_def Let_def split: sum.splits)
  have start: "\<forall>sp\<in>set ?sps. R sp"
    using assms(3) by (rule all_sub_pops_at)
  have "length sps' = length ?sps \<and> (\<forall>sp\<in>set sps'. R sp)"
  proof (rule for_each_upt_inv [OF loop, where P = "\<lambda>k s. length s = length ?sps \<and> (\<forall>sp\<in>set s. R sp)"])
    show "length ?sps = length ?sps \<and> (\<forall>sp\<in>set ?sps. R sp)"
      using start by simp
  next
    fix j s s'
    assume j: "j < length ?sps" and inv: "length s = length ?sps \<and> (\<forall>sp\<in>set s. R sp)"
      and ev: "evaluate_sub_pop p j s = Inr s'"
    have "length s' = length s \<and> (\<forall>sp\<in>set s'. R sp)"
    proof (rule evaluate_sub_pop_preserves [where R = R, OF _ ev])
      show "j < length s" using j inv by simp
      show "\<forall>sp\<in>set s. R sp" using inv by simp
    qed (rule step)
    with inv show "length s' = length ?sps \<and> (\<forall>sp\<in>set s'. R sp)"
      by simp
  qed
  then have "\<forall>sp\<in>set sps'. R sp" ..
  with assms(3) show "all_sub_pops R p'"
    unfolding p' by (rule all_sub_pops_update)
  show "time_grid p' = time_grid p" "nsexes p' = nsexes p" "areas p' = areas p"
    using p' by (simp_all add: time_grid_eq_iff)
qed

lemma evaulate_subpopulations_preserves:
  assumes step: "\<And>index sp sp'. R sp \<Longrightarrow> calculate_some_life_history_1 index sp = Inr sp' \<Longrightarrow> R sp'"
    and "evaulate_subpopulations p = Inr p'" and "all_sub_pops R p"
  shows "all_sub_pops R p' \<and> time_grid p' = time_grid p \<and> nsexes p' = nsexes p
         \<and> areas p' = areas p"
proof -
  from assms(2) obtain n where
    loop: "for_each [0..<n] evaluate_sex p = Inr p'"
    by (auto simp: evaulate_subpopulations_def split: option.splits)
  show ?thesis
  proof (rule for_each_preserves [where P = "\<lambda>q. all_sub_pops R q \<and> time_grid q = time_grid p
      \<and> nsexes q = nsexes p \<and> areas q = areas p", OF loop])
    show "all_sub_pops R p \<and> time_grid p = time_grid p \<and> nsexes p = nsexes p
          \<and> areas p = areas p"
      using assms(3) by simp
  next
    fix i q q'
    assume "all_sub_pops R q \<and> time_grid q = time_grid p \<and> nsexes q = nsexes p
            \<and> areas q = areas p"
      and "evaluate_sex i q = Inr q'"
    then show "all_sub_pops R q' \<and> time_grid q' = time_grid p \<and> nsexes q' = nsexes p
               \<and> areas q' = areas p"
      using evaluate_sex_preserves [where R = R and i = i and p = q and p' = q', OF step] by simp
  qed
qed

section \<open>Partitioning keeps the grids\<close>

lemma add_subpopulation_Inr:
  assumes "add_subpopulation i j (p, g) = Inr (p', g')"
  obtains sp where
    "subpopulation_variable (nyears p) (season_offsets p) (nages p) g = Inr (sp, g')"
    and "i < length (areas p)"
    and "p' = p\<lparr>subpopulation_map := (subpopulation_map p)
                 (i \<mapsto> sub_pops_at (subpopulation_map p) i
                        @ [sp\<lparr>area_ptr := Some (areas p ! i)\<rparr>])\<rparr>"
  using assms by (auto simp: add_subpopulation_def split: sum.splits if_splits)

lemma initialize_subpopulations_preserves:
  assumes new: "\<And>h sp h' a.
      subpopulation_variable (nyears p) (season_offsets p) (nages p) h = Inr (sp, h')
      \<Longrightarrow> R (sp\<lparr>area_ptr := Some a\<rparr>)"
    and init: "initialize_subpopulations n ars (p, g) = Inr (p', g')"
    and old: "all_sub_pops R p"
  shows "all_sub_pops R p' \<and> time_grid p' = time_grid p \<and> areas p' = ars \<and> nsexes p' = Some n"
proof -
  define Q where "Q st \<longleftrightarrow>
      all_sub_pops R (fst st) \<and> time_grid (fst st) = time_grid p \<and> areas (fst st) = ars
      \<and> nsexes (fst st) = Some n" for st :: "population \<times> nat"
  have step: "Q st'" if "Q st" and "add_subpopulation i j st = Inr st'" for i j st st'
  proof -
    obtain q h q' h' where st: "st = (q, h)" and st': "st' = (q', h')"
      by (cases st, cases st') blast
    from that(2) obtain sp where
      made: "subpopulation_variable (nyears q) (season_offsets q) (nages q) h = Inr (sp, h')"
      and q': "q' = q\<lparr>subpopulation_map := (subpopulation_map q)
                      (i \<mapsto> sub_pops_at (subpopulation_map q) i
                             @ [sp\<lparr>area_ptr := Some (areas q ! i)\<rparr>])\<rparr>"
      unfolding st st' by (rule add_subpopulation_Inr)
    have grid: "nyears q = nyears p" "season_offsets q = season_offsets p" "nages q = nages p"
      using that(1) by (simp_all add: Q_def st time_grid_eq_iff)
    have "R (sp\<lparr>area_ptr := Some (areas q ! i)\<rparr>)"
      using made grid by (intro new) simp
    moreover have "\<forall>x\<in>set (sub_pops_at (subpopulation_map q) i). R x"
      using that(1) by (intro all_sub_pops_at) (simp add: Q_def st)
    ultimately have "\<forall>x\<in>set (sub_pops_at (subpopulation_map q) i
                              @ [sp\<lparr>area_ptr := Some (areas q ! i)\<rparr>]). R x"
      by simp
    moreover have "all_sub_pops R q"
      using that(1) by (simp add: Q_def st)
    ultimately have "all_sub_pops R q'"
      unfolding q' by (intro all_sub_pops_update)
    then show ?thesis
      using that(1) by (simp add: Q_def st st' q' time_grid_eq_iff)
  qed
  from init have outer:
    "for_each [0..<n] (\<lambda>i. for_each_int (length ars) (add_subpopulation i))
       (p\<lparr>nsexes := Some n, areas := ars\<rparr>, g) = Inr (p', g')"
    by (simp add: initialize_subpopulations_def for_each_int_Inr)
  have "Q (p', g')"
  proof (rule for_each_preserves [where P = Q, OF outer])
    show "Q (p\<lparr>nsexes := Some n, areas := ars\<rparr>, g)"
      using old by (simp add: Q_def all_sub_pops_def time_grid_eq_iff)
  next
    fix i st st'
    assume "Q st" and "for_each_int (length ars) (add_subpopulation i) st = Inr st'"
    then have inner: "for_each [0..<length ars] (add_subpopulation i) st = Inr st'"
      by (simp add: for_each_int_Inr)
    show "Q st'"
      by (rule for_each_preserves [where P = Q, OF inner]) (use \<open>Q st\<close> step in blast)+
  qed
  then show ?thesis
    by (simp add: Q_def)
qed

lemma built_on_table_iff:
  "built_on_table m ny offs na \<longleftrightarrow>
     ny \<le> length offs
     \<and> nyears m = ny \<and> nseasons m = None \<and> nages m = na \<and> season_offsets m = offs
     \<and> seasons_max m = row_max offs ny"
proof (cases "ny = 0")
  case True
  then show ?thesis
    by (auto simp: built_on_table_def row_max_def)
next
  case False
  then have "row_max offs ny = Max ((\<lambda>y. length (offs ! y)) ` {..<ny})"
    by (simp add: row_max_eq_Max)
  with False show ?thesis
    by (auto simp: built_on_table_def get_seasons_def)
qed

lemma built_on_table_time_grid:
  assumes "time_grid m' = time_grid m"
  shows "built_on_table m' ny offs na \<longleftrightarrow> built_on_table m ny offs na"
  using assms by (simp add: time_grid_eq_iff built_on_table_iff)

lemma subpopulation_variable_built_on_table:
  assumes "subpopulation_variable ny offs na g = Inr (sp, g')"
  shows "built_on_table (sp\<lparr>area_ptr := a\<rparr>) ny offs na"
  using assms by (auto simp: subpopulation_variable_eq built_on_table_iff split: if_splits)

lemma subpopulation_variable_max_season_inv:
  assumes "subpopulation_variable ny offs na g = Inr (sp, g')"
  shows "max_season_inv (sp\<lparr>area_ptr := a\<rparr>)"
  using assms by (auto simp: subpopulation_variable_eq max_season_inv_iff split: if_splits)

text \<open>
  C4. The variable-season constructor returns a grid for every table that covers the
  years, and only for such a table. The grid it returns, be it a bare \<^verbatim>\<open>model_base\<close>, a
  subpopulation or a population, is built on the arguments: it has the \<^verbatim>\<open>nyears\<close>, the
  table and the \<^verbatim>\<open>nages\<close> that were supplied, \<^verbatim>\<open>get_seasons(y)\<close> is the size of row
  \<open>y\<close> of the supplied table for every year, and \<^verbatim>\<open>seasons_max_\<close> is the largest size
  among the first \<^verbatim>\<open>nyears\<close> rows of the supplied table, 0 when \<^verbatim>\<open>nyears\<close> is 0; hence
  \<^verbatim>\<open>seasons_max_\<close> equals the maximum of \<^verbatim>\<open>get_seasons(y)\<close> over its years. The
  operations that change an object, \<^verbatim>\<open>calculate_some_life_history_1\<close>,
  \<^verbatim>\<open>initialize_subpopulations\<close> and \<^verbatim>\<open>evaulate_subpopulations\<close>, leave the grid of the
  object as it is, keep the equality for the population and for every subpopulation it
  holds, and the subpopulations that partitioning adds are built on the table of the
  population and satisfy the equality as well.
\<close>

theorem max_season_count_invariant:
  "(ny \<le> length offs \<longrightarrow> (\<exists>m. model_base_variable ny offs na g = Inr (m, next_id g)))
   \<and> (model_base_variable ny offs na g = Inr (m, g')
        \<longrightarrow> built_on_table m ny offs na \<and> max_season_inv m \<and> g' = next_id g)
   \<and> (subpopulation_variable ny offs na g = Inr (sp, g')
        \<longrightarrow> built_on_table sp ny offs na \<and> max_season_inv sp \<and> g' = next_id g)
   \<and> (population_variable ny offs na g = Inr (p, g')
        \<longrightarrow> built_on_table p ny offs na \<and> all_grids_inv p \<and> g' = next_id g)
   \<and> (max_season_inv sp \<and> calculate_some_life_history_1 index sp = Inr sp'
        \<longrightarrow> max_season_inv sp' \<and> time_grid sp' = time_grid sp)
   \<and> (all_grids_inv p \<and> initialize_subpopulations n ars (p, g) = Inr (p', g')
        \<longrightarrow> all_grids_inv p' \<and> time_grid p' = time_grid p)
   \<and> (all_grids_inv p \<and> evaulate_subpopulations p = Inr p'
        \<longrightarrow> all_grids_inv p' \<and> time_grid p' = time_grid p)
   \<and> (all_sub_pops (\<lambda>s. built_on_table s (nyears p) (season_offsets p) (nages p)) p
        \<and> initialize_subpopulations n ars (p, g) = Inr (p', g')
        \<longrightarrow> all_sub_pops (\<lambda>s. built_on_table s (nyears p) (season_offsets p) (nages p)) p')
   \<and> (all_sub_pops (\<lambda>s. built_on_table s ny offs na) p \<and> evaulate_subpopulations p = Inr p'
        \<longrightarrow> all_sub_pops (\<lambda>s. built_on_table s ny offs na) p')"
proof (intro conjI impI)
  assume "ny \<le> length offs"
  then show "\<exists>m. model_base_variable ny offs na g = Inr (m, next_id g)"
    by (simp add: model_base_variable_eq)
next
  assume built: "model_base_variable ny offs na g = Inr (m, g')"
  then show "built_on_table m ny offs na"
    by (auto simp: model_base_variable_eq built_on_table_iff split: if_splits)
  from built show "max_season_inv m"
    by (auto simp: model_base_variable_eq max_season_inv_iff split: if_splits)
  from built show "g' = next_id g"
    by (auto simp: model_base_variable_eq split: if_splits)
next
  assume built: "subpopulation_variable ny offs na g = Inr (sp, g')"
  then show "built_on_table sp ny offs na"
    by (auto simp: subpopulation_variable_eq built_on_table_iff split: if_splits)
  from built show "max_season_inv sp"
    by (auto simp: subpopulation_variable_eq max_season_inv_iff split: if_splits)
  from built show "g' = next_id g"
    by (auto simp: subpopulation_variable_eq split: if_splits)
next
  assume built: "population_variable ny offs na g = Inr (p, g')"
  then show "built_on_table p ny offs na"
    by (auto simp: population_variable_eq built_on_table_iff split: if_splits)
  from built show "all_grids_inv p"
    by (auto simp: population_variable_eq max_season_inv_iff all_grids_inv_def all_sub_pops_def
        split: if_splits)
  from built show "g' = next_id g"
    by (auto simp: population_variable_eq split: if_splits)
next
  assume a: "max_season_inv sp \<and> calculate_some_life_history_1 index sp = Inr sp'"
  then have "calculate_some_life_history_1 index sp = Inr sp'" ..
  then have grid: "time_grid sp' = time_grid sp"
    by (rule calculate_some_life_history_1_frame(1))
  show "max_season_inv sp'"
    using a max_season_inv_time_grid [OF grid] by blast
  show "time_grid sp' = time_grid sp"
    by (rule grid)
next
  assume a: "all_grids_inv p \<and> initialize_subpopulations n ars (p, g) = Inr (p', g')"
  then have inv: "all_grids_inv p"
    and init: "initialize_subpopulations n ars (p, g) = Inr (p', g')"
    by blast+
  have kept: "all_sub_pops max_season_inv p' \<and> time_grid p' = time_grid p \<and> areas p' = ars
              \<and> nsexes p' = Some n"
  proof (rule initialize_subpopulations_preserves [where R = max_season_inv, OF _ init])
    show "all_sub_pops max_season_inv p"
      using inv unfolding all_grids_inv_def ..
  next
    fix h h' :: nat and s :: subpopulation and a' :: area
    assume "subpopulation_variable (nyears p) (season_offsets p) (nages p) h = Inr (s, h')"
    then show "max_season_inv (s\<lparr>area_ptr := Some a'\<rparr>)"
      by (rule subpopulation_variable_max_season_inv)
  qed
  then have grid: "time_grid p' = time_grid p"
    by blast
  have "max_season_inv p"
    using inv unfolding all_grids_inv_def ..
  then have "max_season_inv p'"
    using max_season_inv_time_grid [OF grid] by blast
  with kept show "all_grids_inv p'"
    unfolding all_grids_inv_def by blast
  show "time_grid p' = time_grid p"
    by (rule grid)
next
  assume a: "all_grids_inv p \<and> evaulate_subpopulations p = Inr p'"
  then have inv: "all_grids_inv p" and ev: "evaulate_subpopulations p = Inr p'"
    by blast+
  have kept: "all_sub_pops max_season_inv p' \<and> time_grid p' = time_grid p
              \<and> nsexes p' = nsexes p \<and> areas p' = areas p"
  proof (rule evaulate_subpopulations_preserves [where R = max_season_inv, OF _ ev])
    show "all_sub_pops max_season_inv p"
      using inv unfolding all_grids_inv_def ..
  next
    fix index :: nat and s s' :: subpopulation
    assume "max_season_inv s" and "calculate_some_life_history_1 index s = Inr s'"
    then show "max_season_inv s'"
      using max_season_inv_time_grid [of s' s] calculate_some_life_history_1_frame(1) [of index s s']
      by blast
  qed
  then have grid: "time_grid p' = time_grid p"
    by blast
  have "max_season_inv p"
    using inv unfolding all_grids_inv_def ..
  then have "max_season_inv p'"
    using max_season_inv_time_grid [OF grid] by blast
  with kept show "all_grids_inv p'"
    unfolding all_grids_inv_def by blast
  show "time_grid p' = time_grid p"
    by (rule grid)
next
  let ?R = "\<lambda>s :: subpopulation. built_on_table s (nyears p) (season_offsets p) (nages p)"
  assume a: "all_sub_pops ?R p \<and> initialize_subpopulations n ars (p, g) = Inr (p', g')"
  then have old: "all_sub_pops ?R p"
    and init: "initialize_subpopulations n ars (p, g) = Inr (p', g')"
    by blast+
  have "all_sub_pops ?R p' \<and> time_grid p' = time_grid p \<and> areas p' = ars
        \<and> nsexes p' = Some n"
  proof (rule initialize_subpopulations_preserves [where R = ?R, OF _ init old])
    fix h h' :: nat and s :: subpopulation and a' :: area
    assume "subpopulation_variable (nyears p) (season_offsets p) (nages p) h = Inr (s, h')"
    then show "built_on_table (s\<lparr>area_ptr := Some a'\<rparr>) (nyears p) (season_offsets p) (nages p)"
      by (rule subpopulation_variable_built_on_table)
  qed
  then show "all_sub_pops ?R p'"
    by blast
next
  let ?R = "\<lambda>s :: subpopulation. built_on_table s ny offs na"
  assume a: "all_sub_pops ?R p \<and> evaulate_subpopulations p = Inr p'"
  then have old: "all_sub_pops ?R p" and ev: "evaulate_subpopulations p = Inr p'"
    by blast+
  have "all_sub_pops ?R p' \<and> time_grid p' = time_grid p
        \<and> nsexes p' = nsexes p \<and> areas p' = areas p"
  proof (rule evaulate_subpopulations_preserves [where R = ?R, OF _ ev old])
    fix index :: nat and s s' :: subpopulation
    assume "built_on_table s ny offs na" and "calculate_some_life_history_1 index s = Inr s'"
    then show "built_on_table s' ny offs na"
      using built_on_table_time_grid [of s' s] calculate_some_life_history_1_frame(1) [of index s s']
      by blast
  qed
  then show "all_sub_pops ?R p'"
    by blast
qed

text \<open>
  The grid with one season in year 0 and three in year 1: it is built on the supplied
  table and \<^verbatim>\<open>seasons_max_\<close> is 3 on the bare grid; the same holds on the population
  built on the same table, after its partitioning into one sex and one area, after its
  evaluation, and on its subpopulation after a cell update.
\<close>

theorem max_season_count_invariant_witness:
  "2 \<le> length offsets_1_3
   \<and> model_base_variable 2 offsets_1_3 1 0 = Inr (grid_1_3, 1)
   \<and> built_on_table grid_1_3 2 offsets_1_3 1
   \<and> max_season_inv grid_1_3 \<and> seasons_max grid_1_3 = 3
   \<and> subpopulation_variable 2 offsets_1_3 1 2 = Inr (sub_1_3\<lparr>area_ptr := None\<rparr>, 3)
   \<and> built_on_table (sub_1_3\<lparr>area_ptr := None\<rparr>) 2 offsets_1_3 1
   \<and> max_season_inv (sub_1_3\<lparr>area_ptr := None\<rparr>)
   \<and> population_variable 2 offsets_1_3 1 1 = Inr (pop_1_3, 2)
   \<and> built_on_table pop_1_3 2 offsets_1_3 1
   \<and> all_grids_inv pop_1_3
   \<and> initialize_subpopulations 1 [area_0] (pop_1_3, 2) = Inr (pop_1_3_partitioned, 3)
   \<and> all_grids_inv pop_1_3_partitioned
   \<and> all_sub_pops (\<lambda>s. built_on_table s 2 offsets_1_3 1) pop_1_3_partitioned
   \<and> built_on_table sub_1_3 2 offsets_1_3 1
   \<and> max_season_inv sub_1_3
   \<and> calculate_some_life_history_1 3 sub_1_3
       = Inr (sub_1_3\<lparr>some_derived_quantities := [0, 0, 0, 3, 0, 0]\<rparr>)
   \<and> max_season_inv (sub_1_3\<lparr>some_derived_quantities := [0, 0, 0, 3, 0, 0]\<rparr>)
   \<and> evaulate_subpopulations pop_1_3_partitioned = Inr pop_1_3_evaluated
   \<and> all_grids_inv pop_1_3_evaluated
   \<and> time_grid pop_1_3_evaluated = time_grid pop_1_3_partitioned
   \<and> all_sub_pops (\<lambda>s. built_on_table s 2 offsets_1_3 1) pop_1_3_evaluated"
proof -
  have grid: "built_on_table grid_1_3 2 offsets_1_3 1 \<and> max_season_inv grid_1_3"
    using max_season_count_invariant [where ny = 2 and offs = offsets_1_3 and na = 1 and g = 0
        and m = grid_1_3 and g' = 1] grid_1_3_built
    by blast
  have sub_built: "subpopulation_variable 2 offsets_1_3 1 2 = Inr (sub_1_3\<lparr>area_ptr := None\<rparr>, 3)"
    by (simp add: sub_1_3_def offsets_1_3_def population_eval grid_eval loop_eval size_eval
        record_eval)
  have sub0: "built_on_table (sub_1_3\<lparr>area_ptr := None\<rparr>) 2 offsets_1_3 1
              \<and> max_season_inv (sub_1_3\<lparr>area_ptr := None\<rparr>)"
    using max_season_count_invariant [where ny = 2 and offs = offsets_1_3 and na = 1 and g = 2
        and sp = "sub_1_3\<lparr>area_ptr := None\<rparr>" and g' = 3] sub_built
    by blast
  have pop: "built_on_table pop_1_3 2 offsets_1_3 1 \<and> all_grids_inv pop_1_3"
    using max_season_count_invariant [where ny = 2 and offs = offsets_1_3 and na = 1 and g = 1
        and p = pop_1_3 and g' = 2] pop_1_3_built
    by blast
  have part: "all_grids_inv pop_1_3_partitioned"
    using max_season_count_invariant [where p = pop_1_3 and n = 1 and ars = "[area_0]" and g = 2
        and p' = pop_1_3_partitioned and g' = 3] pop pop_1_3_partitioned_built
    by blast
  have fields: "nyears pop_1_3 = 2" "season_offsets pop_1_3 = offsets_1_3" "nages pop_1_3 = 1"
    by (simp_all add: pop_1_3_def)
  have none: "all_sub_pops (\<lambda>s. built_on_table s 2 offsets_1_3 1) pop_1_3"
    by (simp add: all_sub_pops_def pop_1_3_def)
  have part_subs: "all_sub_pops (\<lambda>s. built_on_table s 2 offsets_1_3 1) pop_1_3_partitioned"
    using max_season_count_invariant [where p = pop_1_3 and n = 1 and ars = "[area_0]" and g = 2
        and p' = pop_1_3_partitioned and g' = 3] none pop_1_3_partitioned_built
    unfolding fields by blast
  have at_0: "subpopulation_map pop_1_3_partitioned 0 = Some [sub_1_3]"
    by (simp add: pop_1_3_partitioned_def)
  with part have sub: "max_season_inv sub_1_3"
    unfolding all_grids_inv_def all_sub_pops_def by fastforce
  from at_0 part_subs have sub_table: "built_on_table sub_1_3 2 offsets_1_3 1"
    unfolding all_sub_pops_def by fastforce
  have cell: "calculate_some_life_history_1 3 sub_1_3
              = Inr (sub_1_3\<lparr>some_derived_quantities := [0, 0, 0, 3, 0, 0]\<rparr>)"
    by (simp add: calculate_some_life_history_1_def sub_1_3_def)
  have sub': "max_season_inv (sub_1_3\<lparr>some_derived_quantities := [0, 0, 0, 3, 0, 0]\<rparr>)"
    using max_season_count_invariant [where sp = sub_1_3 and index = 3
        and sp' = "sub_1_3\<lparr>some_derived_quantities := [0, 0, 0, 3, 0, 0]\<rparr>"] sub cell
    by blast
  have ev: "all_grids_inv pop_1_3_evaluated
            \<and> time_grid pop_1_3_evaluated = time_grid pop_1_3_partitioned"
    using max_season_count_invariant [where p = pop_1_3_partitioned and p' = pop_1_3_evaluated]
      part pop_1_3_evaluated_built
    by blast
  have ev_subs: "all_sub_pops (\<lambda>s. built_on_table s 2 offsets_1_3 1) pop_1_3_evaluated"
    using max_season_count_invariant [where p = pop_1_3_partitioned and p' = pop_1_3_evaluated
        and ny = 2 and offs = offsets_1_3 and na = 1] part_subs pop_1_3_evaluated_built
    by blast
  have "seasons_max grid_1_3 = 3" and "2 \<le> length offsets_1_3"
    by (simp_all add: grid_1_3_def offsets_1_3_def)
  with grid sub_built sub0 pop part part_subs sub sub_table cell sub' ev ev_subs show ?thesis
    using grid_1_3_built pop_1_3_built pop_1_3_partitioned_built pop_1_3_evaluated_built
    by simp
qed

section \<open>The report of a subpopulation\<close>

lemma report_cell_Inr:
  assumes "report_cell sp y s a out = Inr out'"
  shows "get_index sp y s a < length (some_derived_quantities sp)"
    and "out' = out @ [(y, s, a, some_derived_quantities sp ! get_index sp y s a)]"
  using assms by (auto simp: report_cell_def Let_def split: if_splits)

text \<open>
  C5. Whatever the subpopulation, every record (year, season, age, value) of the report
  that \<^verbatim>\<open>finalize()\<close> prints has its season below \<^verbatim>\<open>get_seasons(year)\<close>, so never in
  the padding between \<^verbatim>\<open>get_seasons(year)\<close> and \<^verbatim>\<open>seasons_max_\<close>; its year and age are
  within the dimensions, and its value is the derived quantity stored at the cell's
  offset.
\<close>

theorem report_only_real_seasons:
  assumes "finalize sp = Inr recs" and "(y, s, a, v) \<in> set recs"
  shows "(\<exists>k. get_seasons sp y = Inr k \<and> s < k)
         \<and> y < nyears sp \<and> a < nages sp
         \<and> get_index sp y s a < length (some_derived_quantities sp)
         \<and> v = some_derived_quantities sp ! get_index sp y s a"
proof -
  define good where "good r \<longleftrightarrow>
      (case r of (y, s, a, v) \<Rightarrow>
         (\<exists>k. get_seasons sp y = Inr k \<and> s < k)
         \<and> y < nyears sp \<and> a < nages sp
         \<and> get_index sp y s a < length (some_derived_quantities sp)
         \<and> v = some_derived_quantities sp ! get_index sp y s a)"
    for r :: report_record
  define all_good where "all_good out \<longleftrightarrow> (\<forall>r\<in>set out. good r)" for out
  have years: "for_each [0..<nyears sp] (report_year sp) [] = Inr recs"
    using assms(1) by (simp add: finalize_def)
  have "all_good recs"
  proof (rule for_each_upt_inv [where P = "\<lambda>_. all_good", OF years])
    show "all_good []"
      by (simp add: all_good_def)
  next
    fix y1 out out'
    assume y1: "y1 < nyears sp" and out: "all_good out"
      and year: "report_year sp y1 out = Inr out'"
    from year obtain k where k: "get_seasons sp y1 = Inr k"
      and seasons: "for_each [0..<k] (\<lambda>s. for_each [0..<nages sp] (report_cell sp y1 s)) out
                    = Inr out'"
      by (auto simp: report_year_def split: sum.splits)
    show "all_good out'"
    proof (rule for_each_upt_inv [where P = "\<lambda>_. all_good", OF seasons])
      show "all_good out" by fact
    next
      fix s1 mid mid'
      assume s1: "s1 < k" and mid: "all_good mid"
        and ages: "for_each [0..<nages sp] (report_cell sp y1 s1) mid = Inr mid'"
      show "all_good mid'"
      proof (rule for_each_upt_inv [where P = "\<lambda>_. all_good", OF ages])
        show "all_good mid" by fact
      next
        fix a1 acc acc'
        assume "a1 < nages sp" and "all_good acc" and "report_cell sp y1 s1 a1 acc = Inr acc'"
        then show "all_good acc'"
          using report_cell_Inr [of sp y1 s1 a1 acc acc'] y1 s1 k
          by (simp add: all_good_def good_def)
      qed
    qed
  qed
  with assms(2) have "good (y, s, a, v)"
    by (simp add: all_good_def)
  then show ?thesis
    by (simp add: good_def)
qed

text \<open>
  The evaluated subpopulation on the grid with one season in year 0 and three in year 1:
  its report has one record for year 0 and three for year 1, and the record of year 1,
  season 2 is one of them, below the three seasons of that year.
\<close>

theorem report_only_real_seasons_witness:
  "finalize sub_1_3_evaluated = Inr [(0, 0, 0, 0), (1, 0, 0, 3), (1, 1, 0, 4), (1, 2, 0, 5)]
   \<and> (1, 2, 0, 5) \<in> set [(0, 0, 0, 0), (1, 0, 0, 3), (1, 1, 0, 4), (1, 2, 0, 5 :: real)]
   \<and> get_seasons sub_1_3_evaluated 1 = Inr 3 \<and> (2 :: nat) < 3
   \<and> get_seasons sub_1_3_evaluated 0 = Inr 1 \<and> seasons_max sub_1_3_evaluated = 3"
proof -
  have mem: "(1, 2, 0, 5) \<in> set [(0, 0, 0, 0), (1, 0, 0, 3), (1, 1, 0, 4), (1, 2, 0, 5 :: real)]"
    by simp
  have "\<exists>k. get_seasons sub_1_3_evaluated 1 = Inr k \<and> 2 < k"
    using report_only_real_seasons [OF sub_1_3_evaluated_report mem] by blast
  moreover have "get_seasons sub_1_3_evaluated 1 = Inr 3"
    and "get_seasons sub_1_3_evaluated 0 = Inr 1" and "seasons_max sub_1_3_evaluated = 3"
    by (simp_all add: get_seasons_def sub_1_3_evaluated_def sub_1_3_def offsets_1_3_def)
  ultimately show ?thesis
    using sub_1_3_evaluated_report mem by simp
qed

subsection \<open>The report in full\<close>

lemma for_each_emit:
  assumes "\<And>i out. i \<in> set xs \<Longrightarrow> body i out = Inr (out @ f i)"
  shows "for_each xs body out = Inr (out @ concat (map f xs))"
  using assms by (induction xs arbitrary: out) simp_all

text \<open>
  When the table covers the years and every cell's offset is below the size of the
  array, \<^verbatim>\<open>finalize()\<close> returns, and its report lists the cells year by year, within a
  year season by season up to \<^verbatim>\<open>get_seasons\<close> of the year, within a season age by age.
\<close>

lemma finalize_returns:
  assumes covered: "nyears sp \<le> length (season_offsets sp)"
    and bounds: "\<forall>y<nyears sp. \<forall>s<length (season_offsets sp ! y). \<forall>a<nages sp.
       get_index sp y s a < length (some_derived_quantities sp)"
  shows "finalize sp =
     Inr (concat (map (\<lambda>y.
            concat (map (\<lambda>s.
              map (\<lambda>a. (y, s, a, some_derived_quantities sp ! get_index sp y s a))
                [0..<nages sp])
              [0..<length (season_offsets sp ! y)]))
            [0..<nyears sp]))"
proof -
  let ?cell = "\<lambda>y s a. (y, s, a, some_derived_quantities sp ! get_index sp y s a)"
  let ?season = "\<lambda>y s. map (?cell y s) [0..<nages sp]"
  let ?year = "\<lambda>y. concat (map (?season y) [0..<length (season_offsets sp ! y)])"
  have season: "for_each [0..<nages sp] (report_cell sp y s) out = Inr (out @ ?season y s)"
    if "y < nyears sp" and "s < length (season_offsets sp ! y)" for y s out
  proof -
    have "for_each [0..<nages sp] (report_cell sp y s) out
          = Inr (out @ concat (map (\<lambda>a. [?cell y s a]) [0..<nages sp]))"
      using that bounds by (intro for_each_emit) (simp add: report_cell_def)
    then show ?thesis
      by (simp add: concat_map_singleton)
  qed
  have year: "report_year sp y out = Inr (out @ ?year y)" if "y < nyears sp" for y out
  proof -
    have "get_seasons sp y = Inr (length (season_offsets sp ! y))"
      using that covered by (simp add: get_seasons_def)
    moreover have "for_each [0..<length (season_offsets sp ! y)]
             (\<lambda>s. for_each [0..<nages sp] (report_cell sp y s)) out = Inr (out @ ?year y)"
      using that by (intro for_each_emit) (simp add: season)
    ultimately show ?thesis
      by (simp add: report_year_def)
  qed
  have "for_each [0..<nyears sp] (report_year sp) [] = Inr ([] @ concat (map ?year [0..<nyears sp]))"
    by (intro for_each_emit) (simp add: year)
  then show ?thesis
    by (simp add: finalize_def)
qed

section \<open>Offsets and the size of the array\<close>

lemma row_max_ge:
  assumes "y < n"
  shows "length (offs ! y) \<le> row_max offs n"
  unfolding row_max_def using assms by (intro Max_ge) auto

lemma row_max_const:
  assumes "0 < n" and "\<forall>y<n. length (offs ! y) = c"
  shows "row_max offs n = c"
proof -
  have "(\<lambda>y. length (offs ! y)) ` {..<n} = {c}"
    using assms by force
  then show ?thesis
    by (simp add: row_max_def)
qed

lemma derived_size_exact:
  assumes "ny * smax * na < 2 ^ 64"
  shows "derived_size ny smax na = ny * smax * na"
  using assms by (simp add: derived_size_def size_mul_def SIZE_WIDTH_def mod_simps)

text \<open>
  What both constructors of a population establish: the table covers the years, no year
  has more seasons than \<^verbatim>\<open>seasons_max_\<close>, and when there is a year, \<^verbatim>\<open>seasons_max_\<close>
  is the largest row size, which is what the constructor of a subpopulation computes
  from the same table.
\<close>

lemma population_built_grid:
  assumes "population_fixed ny ns na ags g = Inr (p, g')
           \<or> population_variable ny offs na g = Inr (p, g')"
  shows "nyears p \<le> length (season_offsets p)"
    and "nyears p = 0 \<or> row_max (season_offsets p) (nyears p) = seasons_max p"
    and "subpopulation_map p = Map.empty"
proof -
  have "nyears p \<le> length (season_offsets p)
        \<and> (nyears p = 0 \<or> row_max (season_offsets p) (nyears p) = seasons_max p)
        \<and> subpopulation_map p = Map.empty"
    using assms
  proof
    assume built: "population_fixed ny ns na ags g = Inr (p, g')"
    note facts = population_fixed_Inr [OF built]
    have "row_max (season_offsets p) (nyears p) = seasons_max p" if "nyears p \<noteq> 0"
      using that facts by (intro row_max_const) simp_all
    then show ?thesis
      using facts by auto
  next
    assume "population_variable ny offs na g = Inr (p, g')"
    then show ?thesis
      by (auto simp: population_variable_eq split: if_splits)
  qed
  then show "nyears p \<le> length (season_offsets p)"
    and "nyears p = 0 \<or> row_max (season_offsets p) (nyears p) = seasons_max p"
    and "subpopulation_map p = Map.empty"
    by simp_all
qed

lemma sub_pop_in_bounds_time_grid:
  assumes "time_grid q = time_grid p"
  shows "sub_pop_in_bounds q sp \<longleftrightarrow> sub_pop_in_bounds p sp"
  using assms by (simp add: time_grid_eq_iff sub_pop_in_bounds_def get_seasons_def get_index_def)

lemma sub_pop_in_bounds_calculate:
  assumes "sub_pop_in_bounds p sp" and "calculate_some_life_history_1 index sp = Inr sp'"
  shows "sub_pop_in_bounds p sp'"
  using assms(1)
  unfolding sub_pop_in_bounds_def calculate_some_life_history_1_frame(2) [OF assms(2)] .

text \<open>
  An array of the right size is large enough for every cell of the grid, as long as the
  cell count fits \<^verbatim>\<open>size_t\<close>.
\<close>

lemma sub_pop_in_boundsI:
  assumes size: "length (some_derived_quantities sp) = nyears p * seasons_max p * nages p"
    and fits: "nyears p * seasons_max p * nages p < 2 ^ 64"
    and rows: "\<forall>y<nyears p. length (season_offsets p ! y) \<le> seasons_max p"
  shows "sub_pop_in_bounds p sp"
  unfolding sub_pop_in_bounds_def
proof (intro conjI allI impI)
  show "length (some_derived_quantities sp) = nyears p * seasons_max p * nages p"
    by (rule size)
next
  fix y s a k
  assume cell: "y < nyears p \<and> get_seasons p y = Inr k \<and> s < k \<and> a < nages p"
  then have "k = length (season_offsets p ! y)"
    by (auto simp: get_seasons_def split: if_splits)
  with cell rows have s: "s < seasons_max p"
    by fastforce
  have "get_index p y s a = y * seasons_max p * nages p + s * nages p + a"
    using fits cell s by (intro get_index_formula_aux) simp_all
  also have "\<dots> < nyears p * seasons_max p * nages p"
    using cell s by (intro cell_below_size) simp_all
  finally show "get_index p y s a < length (some_derived_quantities sp)"
    using size by simp
qed

section \<open>Evaluation returns\<close>

lemma evaluate_cells_total:
  assumes tg: "time_grid q = time_grid p"
    and covered: "nyears p \<le> length (season_offsets p)"
    and start: "sub_pop_in_bounds p sp"
  shows "\<exists>sp'. for_each [0..<nyears q] (evaluate_year q) sp = Inr sp' \<and> sub_pop_in_bounds p sp'"
proof -
  have fields: "nyears q = nyears p" "nages q = nages p"
    "season_offsets q = season_offsets p" "seasons_max q = seasons_max p"
    using tg by (simp_all add: time_grid_eq_iff)
  have idx: "get_index q y s a = get_index p y s a" for y s a
    by (simp add: get_index_def fields)
  have seasons: "get_seasons q y = get_seasons p y" for y
    by (simp add: get_seasons_def fields)
  show ?thesis
  proof (rule for_each_upt_total [where P = "\<lambda>_. sub_pop_in_bounds p"])
    show "sub_pop_in_bounds p sp" by fact
  next
    fix y t
    assume y: "y < nyears q" and t: "sub_pop_in_bounds p t"
    define k where "k = length (season_offsets p ! y)"
    have k: "get_seasons p y = Inr k"
      using y covered by (simp add: get_seasons_def fields k_def)
    have "\<exists>t'. for_each [0..<k]
                  (\<lambda>s. for_each [0..<nages q]
                          (\<lambda>a. calculate_some_life_history_1 (get_index q y s a))) t = Inr t'
               \<and> sub_pop_in_bounds p t'"
    proof (rule for_each_upt_total [where P = "\<lambda>_. sub_pop_in_bounds p"])
      show "sub_pop_in_bounds p t" by fact
    next
      fix s u
      assume s: "s < k" and u: "sub_pop_in_bounds p u"
      show "\<exists>u'. for_each [0..<nages q]
                    (\<lambda>a. calculate_some_life_history_1 (get_index q y s a)) u = Inr u'
                 \<and> sub_pop_in_bounds p u'"
      proof (rule for_each_upt_total [where P = "\<lambda>_. sub_pop_in_bounds p"])
        show "sub_pop_in_bounds p u" by fact
      next
        fix a w
        assume a: "a < nages q" and w: "sub_pop_in_bounds p w"
        have cell: "y < nyears p \<and> get_seasons p y = Inr k \<and> s < k \<and> a < nages p"
          using y k s a fields by simp
        have "get_index p y s a < length (some_derived_quantities w)"
          using w cell unfolding sub_pop_in_bounds_def by blast
        then obtain w' where w': "calculate_some_life_history_1 (get_index q y s a) w = Inr w'"
          by (simp add: calculate_some_life_history_1_def idx)
        have "sub_pop_in_bounds p w'"
          using w w' by (rule sub_pop_in_bounds_calculate)
        with w' show "\<exists>w'. calculate_some_life_history_1 (get_index q y s a) w = Inr w'
                           \<and> sub_pop_in_bounds p w'"
          by blast
      qed
    qed
    then show "\<exists>t'. evaluate_year q y t = Inr t' \<and> sub_pop_in_bounds p t'"
      by (simp add: evaluate_year_def seasons k)
  qed
qed

lemma evaluate_sex_total:
  assumes tg: "time_grid q = time_grid p"
    and covered: "nyears p \<le> length (season_offsets p)"
    and start: "all_sub_pops (sub_pop_in_bounds p) q"
  shows "\<exists>q'. evaluate_sex i q = Inr q' \<and> time_grid q' = time_grid p
              \<and> all_sub_pops (sub_pop_in_bounds p) q'"
proof -
  let ?sps = "sub_pops_at (subpopulation_map q) i"
  let ?P = "\<lambda>(k :: nat) s. length s = length ?sps \<and> (\<forall>sp\<in>set s. sub_pop_in_bounds p sp)"
  have "\<exists>sps'. for_each [0..<length ?sps] (evaluate_sub_pop q) ?sps = Inr sps'
               \<and> ?P (length ?sps) sps'"
  proof (rule for_each_upt_total [where P = ?P])
    show "?P 0 ?sps"
      using all_sub_pops_at [OF start] by simp
  next
    fix j s
    assume j: "j < length ?sps" and s: "?P j s"
    then have "sub_pop_in_bounds p (s ! j)"
      by simp
    then obtain sp' where
      run: "for_each [0..<nyears q] (evaluate_year q) (s ! j) = Inr sp'"
      and sp': "sub_pop_in_bounds p sp'"
      using evaluate_cells_total [OF tg covered] by blast
    have "\<forall>x\<in>set (s[j := sp']). sub_pop_in_bounds p x"
      using s sp' set_update_subset_insert [of s j sp'] by auto
    then show "\<exists>s'. evaluate_sub_pop q j s = Inr s' \<and> ?P (Suc j) s'"
      using run s j by (simp add: evaluate_sub_pop_def)
  qed
  then obtain sps' where
    loop: "for_each [0..<length ?sps] (evaluate_sub_pop q) ?sps = Inr sps'"
    and all: "\<forall>sp\<in>set sps'. sub_pop_in_bounds p sp"
    by blast
  let ?q' = "q\<lparr>subpopulation_map := (subpopulation_map q)(i \<mapsto> sps')\<rparr>"
  have "evaluate_sex i q = Inr ?q'"
    using loop by (simp add: evaluate_sex_def Let_def)
  moreover have "time_grid ?q' = time_grid p"
    using tg by (simp add: time_grid_eq_iff)
  moreover have "all_sub_pops (sub_pop_in_bounds p) ?q'"
    using start all by (rule all_sub_pops_update)
  ultimately show ?thesis
    by blast
qed

lemma evaulate_subpopulations_total:
  assumes sexes: "nsexes p = Some n"
    and covered: "nyears p \<le> length (season_offsets p)"
    and start: "cells_in_bounds p"
  shows "\<exists>p'. evaulate_subpopulations p = Inr p' \<and> time_grid p' = time_grid p
              \<and> cells_in_bounds p'"
proof -
  let ?P = "\<lambda>(k :: nat) q. time_grid q = time_grid p \<and> all_sub_pops (sub_pop_in_bounds p) q"
  have "\<exists>p'. for_each [0..<n] evaluate_sex p = Inr p' \<and> ?P n p'"
  proof (rule for_each_upt_total [where P = ?P])
    show "?P 0 p"
      using start by (simp add: cells_in_bounds_def)
  next
    fix i q
    assume "i < n" and "?P i q"
    then show "\<exists>q'. evaluate_sex i q = Inr q' \<and> ?P (Suc i) q'"
      using evaluate_sex_total [of q p i] covered by simp
  qed
  then obtain p' where run: "for_each [0..<n] evaluate_sex p = Inr p'"
    and tg: "time_grid p' = time_grid p" and all: "all_sub_pops (sub_pop_in_bounds p) p'"
    by blast
  have "sub_pop_in_bounds p' = sub_pop_in_bounds p"
    using sub_pop_in_bounds_time_grid [OF tg] by (intro ext)
  with all have "cells_in_bounds p'"
    by (simp add: cells_in_bounds_def)
  with run tg show ?thesis
    by (simp add: evaulate_subpopulations_def sexes)
qed

lemma all_sub_pops_mono:
  assumes "all_sub_pops R p" and "\<And>sp. R sp \<Longrightarrow> R' sp"
  shows "all_sub_pops R' p"
  using assms unfolding all_sub_pops_def by blast

text \<open>
  C9, as the code has it, for a population made by either constructor and then
  partitioned, provided that \<open>yearCount * maxSeasonCount * ageCount\<close> is below \<open>2 ^ 64\<close>, so
  that the \<^verbatim>\<open>size_t\<close> product in the constructor of the subpopulations is that number.
  Then the array of every subpopulation has that many cells, every offset
  \<^verbatim>\<open>get_index(y, s, a)\<close> with \<open>y\<close> below the year count, \<open>s\<close> below \<^verbatim>\<open>get_seasons(y)\<close> and
  \<open>a\<close> below the age count is below the size of the array, and
  \<^verbatim>\<open>evaulate_subpopulations\<close> returns without any access out of range, leaving
  arrays of the same sizes.
\<close>

theorem evaluation_within_bounds:
  assumes built: "population_fixed ny ns na ags g = Inr (p, g1)
                  \<or> population_variable ny offs na g = Inr (p, g1)"
    and init: "initialize_subpopulations n ars (p, g1) = Inr (p', g2)"
    and fits: "nyears p * seasons_max p * nages p < 2 ^ 64"
  shows "cells_in_bounds p'
         \<and> (\<exists>p''. evaulate_subpopulations p' = Inr p'' \<and> cells_in_bounds p'')"
proof -
  note grid = population_built_grid [OF built]
  let ?rm = "row_max (season_offsets p) (nyears p)"
  let ?R = "\<lambda>sp. length (some_derived_quantities sp) = derived_size (nyears p) ?rm (nages p)"
  have kept: "all_sub_pops ?R p' \<and> time_grid p' = time_grid p \<and> areas p' = ars
              \<and> nsexes p' = Some n"
  proof (rule initialize_subpopulations_preserves [where R = ?R, OF _ init])
    show "all_sub_pops ?R p"
      using grid(3) by (simp add: all_sub_pops_def)
  next
    fix h h' :: nat and sp :: subpopulation and a :: area
    assume "subpopulation_variable (nyears p) (season_offsets p) (nages p) h = Inr (sp, h')"
    then show "length (some_derived_quantities (sp\<lparr>area_ptr := Some a\<rparr>))
               = derived_size (nyears p) ?rm (nages p)"
      by (auto simp: subpopulation_variable_eq split: if_splits)
  qed
  then have fields: "nyears p' = nyears p" "nages p' = nages p"
    "season_offsets p' = season_offsets p" "seasons_max p' = seasons_max p"
    by (simp_all add: time_grid_eq_iff)
  have product: "nyears p * ?rm * nages p = nyears p * seasons_max p * nages p"
    using grid(2) by auto
  have "nyears p * ?rm * nages p < 2 ^ 64"
    using fits by (simp only: product)
  then have "derived_size (nyears p) ?rm (nages p) = nyears p * ?rm * nages p"
    by (rule derived_size_exact)
  then have size:
    "derived_size (nyears p) ?rm (nages p) = nyears p * seasons_max p * nages p"
    by (simp only: product)
  have rows: "\<forall>y<nyears p. length (season_offsets p ! y) \<le> seasons_max p"
  proof (intro allI impI)
    fix y
    assume y: "y < nyears p"
    then have "length (season_offsets p ! y) \<le> ?rm"
      by (rule row_max_ge)
    moreover have "?rm = seasons_max p"
      using grid(2) y by auto
    ultimately show "length (season_offsets p ! y) \<le> seasons_max p"
      by simp
  qed
  have enough: "sub_pop_in_bounds p' sp" if "?R sp" for sp
    using that size fits rows by (intro sub_pop_in_boundsI) (simp_all add: fields)
  have "all_sub_pops ?R p'"
    using kept by blast
  then have bounds: "cells_in_bounds p'"
    unfolding cells_in_bounds_def by (rule all_sub_pops_mono) (rule enough)
  have "nsexes p' = Some n" and "nyears p' \<le> length (season_offsets p')"
    using kept grid(1) by (simp_all add: fields)
  then have "\<exists>p''. evaulate_subpopulations p' = Inr p'' \<and> time_grid p'' = time_grid p'
                  \<and> cells_in_bounds p''"
    using bounds by (rule evaulate_subpopulations_total)
  with bounds show ?thesis
    by blast
qed

text \<open>
  The fixed grid of two years, two seasons and two ages, and the variable grid with one
  and three seasons, each partitioned into one sex and one area: eight and six cells.
\<close>

theorem evaluation_within_bounds_witness:
  "population_fixed 2 2 2 [1, 2] 1 = Inr (pop_2_2_2, 2)
   \<and> initialize_subpopulations 1 [area_0] (pop_2_2_2, 2) = Inr (pop_2_2_2_partitioned, 3)
   \<and> nyears pop_2_2_2 * seasons_max pop_2_2_2 * nages pop_2_2_2 < 2 ^ 64
   \<and> cells_in_bounds pop_2_2_2_partitioned
   \<and> (\<exists>p''. evaulate_subpopulations pop_2_2_2_partitioned = Inr p'' \<and> cells_in_bounds p'')
   \<and> population_variable 2 offsets_1_3 1 1 = Inr (pop_1_3, 2)
   \<and> initialize_subpopulations 1 [area_0] (pop_1_3, 2) = Inr (pop_1_3_partitioned, 3)
   \<and> nyears pop_1_3 * seasons_max pop_1_3 * nages pop_1_3 < 2 ^ 64
   \<and> cells_in_bounds pop_1_3_partitioned
   \<and> evaulate_subpopulations pop_1_3_partitioned = Inr pop_1_3_evaluated
   \<and> cells_in_bounds pop_1_3_evaluated"
proof -
  have fixed_built: "population_fixed 2 2 2 [1, 2] 1 = Inr (pop_2_2_2, 2)
      \<or> population_variable 2 [] 2 1 = Inr (pop_2_2_2, 2)"
    using pop_2_2_2_built by simp
  have fixed_fits: "nyears pop_2_2_2 * seasons_max pop_2_2_2 * nages pop_2_2_2 < 2 ^ 64"
    by (simp add: pop_2_2_2_def)
  note fixed = evaluation_within_bounds [OF fixed_built pop_2_2_2_partitioned_built fixed_fits]
  have variable_built: "population_fixed 2 3 1 [] 1 = Inr (pop_1_3, 2)
      \<or> population_variable 2 offsets_1_3 1 1 = Inr (pop_1_3, 2)"
    using pop_1_3_built by simp
  have variable_fits: "nyears pop_1_3 * seasons_max pop_1_3 * nages pop_1_3 < 2 ^ 64"
    by (simp add: pop_1_3_def)
  note variable =
    evaluation_within_bounds [OF variable_built pop_1_3_partitioned_built variable_fits]
  have "cells_in_bounds pop_1_3_evaluated"
    using variable pop_1_3_evaluated_built by auto
  with fixed variable fixed_fits variable_fits show ?thesis
    using pop_2_2_2_built pop_2_2_2_partitioned_built pop_1_3_built pop_1_3_partitioned_built
      pop_1_3_evaluated_built
    by simp
qed

text \<open>
  C9 as stated, for every partitioned population, fails when the cell count does not fit
  \<^verbatim>\<open>size_t\<close>. The population of two years with two seasons each and \<open>2 ^ 63\<close> age
  classes has \<open>2 ^ 65\<close> cells; the constructor of its subpopulation resizes the array
  to the \<^verbatim>\<open>size_t\<close> product, which is 0; the first offset of the evaluation,
  \<^verbatim>\<open>get_index(0, 0, 0) = 0\<close>, is not below the size of the array, and the write is out of
  range.
\<close>

theorem evaluation_within_bounds_counterexample:
  "population_variable 2 [[1 / 2, 1], [1 / 2, 1]] (2 ^ 63) 1 = Inr (pop_big, 2)
   \<and> initialize_subpopulations 1 [area_0] (pop_big, 2) = Inr (pop_big_partitioned, 3)
   \<and> subpopulation_map pop_big_partitioned 0 = Some [sub_big]
   \<and> nyears pop_big_partitioned * seasons_max pop_big_partitioned * nages pop_big_partitioned
       = 2 ^ 65
   \<and> length (some_derived_quantities sub_big) = 0
   \<and> 0 < nyears pop_big_partitioned \<and> get_seasons pop_big_partitioned 0 = Inr 2
   \<and> 0 < nages pop_big_partitioned
   \<and> \<not> get_index pop_big_partitioned 0 0 0 < length (some_derived_quantities sub_big)
   \<and> evaulate_subpopulations pop_big_partitioned = Inl out_of_range"
proof -
  let ?p = pop_big_partitioned
  have dims: "nyears ?p = 2" "nages ?p = 2 ^ 63" "seasons_max ?p = 2" "nsexes ?p = Some 1"
    "subpopulation_map ?p 0 = Some [sub_big]" "get_seasons ?p 0 = Inr 2"
    by (simp_all add: pop_big_partitioned_def pop_big_def get_seasons_def)
  have empty: "some_derived_quantities sub_big = []"
    by (simp add: sub_big_def)
  have "get_index ?p 0 0 0 = 0"
    by (simp add: get_index_mod)
  then have cell: "calculate_some_life_history_1 (get_index ?p 0 0 0) sub_big = Inl out_of_range"
    by (simp add: calculate_some_life_history_1_def empty)
  have ages: "for_each [0..<nages ?p]
                (\<lambda>a. calculate_some_life_history_1 (get_index ?p 0 0 a)) sub_big
              = Inl out_of_range"
    by (rule for_each_first_fault
        [where body = "\<lambda>a. calculate_some_life_history_1 (get_index ?p 0 0 a)"])
      (simp_all add: dims cell)
  have seasons: "for_each [0..<2]
                   (\<lambda>s. for_each [0..<nages ?p]
                           (\<lambda>a. calculate_some_life_history_1 (get_index ?p 0 s a))) sub_big
                 = Inl out_of_range"
    by (rule for_each_first_fault
        [where body = "\<lambda>s. for_each [0..<nages ?p]
                         (\<lambda>a. calculate_some_life_history_1 (get_index ?p 0 s a))"])
      (simp_all add: ages)
  have year: "evaluate_year ?p 0 sub_big = Inl out_of_range"
    using seasons by (simp add: evaluate_year_def dims)
  have years: "for_each [0..<nyears ?p] (evaluate_year ?p) sub_big = Inl out_of_range"
    by (rule for_each_first_fault [where body = "evaluate_year ?p"]) (simp_all add: dims year)
  have sub_pop: "evaluate_sub_pop ?p 0 [sub_big] = Inl out_of_range"
    using years by (simp add: evaluate_sub_pop_def)
  have sex: "evaluate_sex 0 ?p = Inl out_of_range"
    using sub_pop by (simp add: evaluate_sex_def sub_pops_at_def dims)
  have "evaulate_subpopulations ?p = Inl out_of_range"
    using sex by (simp add: evaulate_subpopulations_def dims)
  moreover have "nyears ?p * seasons_max ?p * nages ?p = 2 ^ 65"
    by (simp add: dims)
  moreover have "\<not> get_index ?p 0 0 0 < length (some_derived_quantities sub_big)"
    by (simp add: empty)
  ultimately show ?thesis
    using pop_big_built pop_big_partitioned_built dims empty by simp
qed

section \<open>When the constructors and the partitioning return\<close>

lemma model_base_fixed_returns:
  assumes "ny \<le> INT_MAX" and "ny = 0 \<or> ns \<le> 2 ^ 53"
  shows "\<exists>m. model_base_fixed ny ns na g = Inr (m, next_id g)"
proof -
  have "\<exists>offs. for_each [0..<ny] (push_fixed_row ns) (replicate ny []) = Inr offs
              \<and> length offs = ny"
  proof (rule for_each_upt_total [where P = "\<lambda>_ st. length st = ny"])
    show "length (replicate ny ([] :: real list)) = ny"
      by simp
  next
    fix i and st :: "real list list"
    assume "i < ny" and "length st = ny"
    then show "\<exists>st'. push_fixed_row ns i st = Inr st' \<and> length st' = ny"
      using assms(2) by (auto simp: push_fixed_row_def fixed_row_def)
  qed
  then show ?thesis
    using assms(1) by (auto simp: model_base_fixed_def for_each_int_def)
qed

lemma population_fixed_returns:
  assumes "ny \<le> INT_MAX" and "ny = 0 \<or> ns \<le> 2 ^ 53"
  shows "\<exists>p. population_fixed ny ns na ags g = Inr (p, next_id g)"
  using model_base_fixed_returns [OF assms, of na g]
  by (auto simp: population_fixed_def population_base_fixed_def)

text \<open>
  Partitioning returns when the table of the population covers its years, both counts
  fit an \<^verbatim>\<open>int\<close>, and there are no more sexes than areas or there is no area at all.
\<close>

lemma initialize_subpopulations_returns:
  assumes covered: "nyears p \<le> length (season_offsets p)"
    and ints: "n \<le> INT_MAX" "length ars \<le> INT_MAX"
    and enough: "ars = [] \<or> n \<le> length ars"
  shows "\<exists>p' g'. initialize_subpopulations n ars (p, g) = Inr (p', g')"
proof -
  define Q where "Q st \<longleftrightarrow> time_grid (fst st) = time_grid p \<and> areas (fst st) = ars"
    for st :: "population \<times> nat"
  have step: "\<exists>st'. add_subpopulation i j st = Inr st' \<and> Q st'"
    if "Q st" and "i < n" and "j < length ars" for i j st
  proof -
    obtain q h where st: "st = (q, h)"
      by (cases st)
    have fields: "nyears q = nyears p" "season_offsets q = season_offsets p" "areas q = ars"
      using that(1) by (simp_all add: Q_def st time_grid_eq_iff)
    have "i < length ars"
      using that(2,3) enough by auto
    then show ?thesis
      using that(1) covered
      by (simp add: add_subpopulation_def st fields subpopulation_variable_eq Q_def
          time_grid_eq_iff)
  qed
  have "\<exists>st'. for_each [0..<n] (\<lambda>i. for_each_int (length ars) (add_subpopulation i))
                (p\<lparr>nsexes := Some n, areas := ars\<rparr>, g) = Inr st' \<and> Q st'"
  proof (rule for_each_upt_total [where P = "\<lambda>_. Q"])
    show "Q (p\<lparr>nsexes := Some n, areas := ars\<rparr>, g)"
      by (simp add: Q_def time_grid_eq_iff)
  next
    fix i st
    assume i: "i < n" and st: "Q st"
    have "\<exists>st'. for_each [0..<length ars] (add_subpopulation i) st = Inr st' \<and> Q st'"
    proof (rule for_each_upt_total [where P = "\<lambda>_. Q"])
      show "Q st" by fact
    next
      fix j s
      assume "j < length ars" and "Q s"
      then show "\<exists>s'. add_subpopulation i j s = Inr s' \<and> Q s'"
        using step i by blast
    qed
    then show "\<exists>st'. for_each_int (length ars) (add_subpopulation i) st = Inr st' \<and> Q st'"
      using ints(2) by (auto simp: for_each_int_def)
  qed
  then obtain st' where
    "for_each [0..<n] (\<lambda>i. for_each_int (length ars) (add_subpopulation i))
       (p\<lparr>nsexes := Some n, areas := ars\<rparr>, g) = Inr st'"
    by blast
  then have "initialize_subpopulations n ars (p, g) = Inr st'"
    using ints(1) by (simp add: initialize_subpopulations_def for_each_int_def)
  then show ?thesis
    by (cases st') auto
qed

section \<open>What partitioning builds\<close>

text \<open>
  On a population that holds no subpopulation yet, a partitioning that returns leaves,
  for every sex below the sex count, as many subpopulations as there are areas, all bound
  to the area at the position of the sex, and nothing for any other key; the
  subpopulations number \<open>sexCount * len(areas)\<close> in all.
\<close>

lemma sub_pops_at_outside_dom:
  assumes "i \<notin> dom m"
  shows "sub_pops_at m i = []"
  using assms by (auto simp: sub_pops_at_def split: option.splits)

lemma initialize_subpopulations_shape:
  assumes fresh: "subpopulation_map p = Map.empty"
    and init: "initialize_subpopulations n ars (p, g) = Inr (p', g')"
  shows "dom (subpopulation_map p') \<subseteq> {..<n}"
    and "\<forall>i<n. bound_areas p' i = replicate (length ars) (Some (ars ! i))"
    and "subpopulation_count p' = n * length ars"
proof -
  define outer where "outer k st \<longleftrightarrow>
      areas (fst st) = ars \<and> dom (subpopulation_map (fst st)) \<subseteq> {..<k}
      \<and> (\<forall>i<k. bound_areas (fst st) i = replicate (length ars) (Some (ars ! i)))"
    for k and st :: "population \<times> nat"
  define inner where "inner i j st \<longleftrightarrow>
      areas (fst st) = ars \<and> dom (subpopulation_map (fst st)) \<subseteq> {..<Suc i}
      \<and> (\<forall>i'<i. bound_areas (fst st) i' = replicate (length ars) (Some (ars ! i')))
      \<and> bound_areas (fst st) i = replicate j (Some (ars ! i))"
    for i j and st :: "population \<times> nat"
  have enter: "inner i 0 st" if "outer i st" for i st
  proof -
    have "i \<notin> dom (subpopulation_map (fst st))"
      using that by (auto simp: outer_def)
    then have "bound_areas (fst st) i = []"
      by (simp add: bound_areas_def sub_pops_at_outside_dom)
    with that show ?thesis
      by (auto simp: outer_def inner_def)
  qed
  have step: "inner i (Suc j) st'"
    if "inner i j st" and "add_subpopulation i j st = Inr st'" for i j st st'
  proof -
    obtain q h q' h' where st: "st = (q, h)" and st': "st' = (q', h')"
      by (cases st, cases st') blast
    from that(2) obtain sp where
      q': "q' = q\<lparr>subpopulation_map := (subpopulation_map q)
                      (i \<mapsto> sub_pops_at (subpopulation_map q) i
                             @ [sp\<lparr>area_ptr := Some (areas q ! i)\<rparr>])\<rparr>"
      unfolding st st' by (rule add_subpopulation_Inr)
    have inv: "areas q = ars" "dom (subpopulation_map q) \<subseteq> {..<Suc i}"
      "\<forall>i'<i. bound_areas q i' = replicate (length ars) (Some (ars ! i'))"
      "bound_areas q i = replicate j (Some (ars ! i))"
      using that(1) by (simp_all add: inner_def st)
    have "bound_areas q' i = bound_areas q i @ [Some (ars ! i)]"
      by (simp add: q' bound_areas_def sub_pops_at_def inv(1))
    then have here: "bound_areas q' i = replicate (Suc j) (Some (ars ! i))"
      by (simp add: inv(4) replicate_append_same)
    have others: "bound_areas q' i' = bound_areas q i'" if "i' \<noteq> i" for i'
      using that by (simp add: q' bound_areas_def sub_pops_at_def)
    have "dom (subpopulation_map q') \<subseteq> {..<Suc i}"
      using inv(2) by (auto simp: q')
    moreover have "areas q' = ars"
      by (simp add: q' inv(1))
    ultimately show ?thesis
      using here others inv(3) by (simp add: inner_def st')
  qed
  have leave: "outer (Suc i) st" if "inner i (length ars) st" for i st
    using that by (auto simp: outer_def inner_def less_Suc_eq)
  from init have run:
    "for_each [0..<n] (\<lambda>i. for_each_int (length ars) (add_subpopulation i))
       (p\<lparr>nsexes := Some n, areas := ars\<rparr>, g) = Inr (p', g')"
    by (simp add: initialize_subpopulations_def for_each_int_Inr)
  have final: "outer n (p', g')"
  proof (rule for_each_upt_inv [where P = outer, OF run])
    show "outer 0 (p\<lparr>nsexes := Some n, areas := ars\<rparr>, g)"
      by (simp add: outer_def fresh)
  next
    fix i st st'
    assume "i < n" and before: "outer i st"
      and "for_each_int (length ars) (add_subpopulation i) st = Inr st'"
    then have areas_loop: "for_each [0..<length ars] (add_subpopulation i) st = Inr st'"
      by (simp add: for_each_int_Inr)
    have "inner i (length ars) st'"
    proof (rule for_each_upt_inv [where P = "inner i", OF areas_loop])
      show "inner i 0 st"
        using before by (rule enter)
    next
      fix j s s'
      assume "j < length ars" and "inner i j s" and "add_subpopulation i j s = Inr s'"
      then show "inner i (Suc j) s'"
        using step by blast
    qed
    then show "outer (Suc i) st'"
      by (rule leave)
  qed
  show in_dom: "dom (subpopulation_map p') \<subseteq> {..<n}"
    and bound: "\<forall>i<n. bound_areas p' i = replicate (length ars) (Some (ars ! i))"
    using final by (simp_all add: outer_def)
  have len: "length (sub_pops_at (subpopulation_map p') i) = length ars" if "i < n" for i
  proof -
    have "length (bound_areas p' i) = length ars"
      using bound that by simp
    then show ?thesis
      by (simp add: bound_areas_def)
  qed
  have "subpopulation_count p'
        = (\<Sum>i\<in>{..<n}. length (sub_pops_at (subpopulation_map p') i))"
    unfolding subpopulation_count_def
    by (rule sum.mono_neutral_left) (use in_dom in \<open>auto simp: sub_pops_at_outside_dom\<close>)
  also have "\<dots> = (\<Sum>i\<in>{..<n}. length ars)"
    by (rule sum.cong) (simp_all add: len)
  finally show "subpopulation_count p' = n * length ars"
    by simp
qed

text \<open>
  C1 at a concrete input: \<^verbatim>\<open>initialize_subpopulations(1, {area_0, area_1})\<close> on the
  new population \<^verbatim>\<open>population(1, 1, 1, {1})\<close>, with two areas that differ. Sex 0 gets
  two subpopulations, and both are bound to \<open>area_0\<close>: the assignment
  \<^verbatim>\<open>sub_pop->area_ = this->areas_[i]\<close> indexes the areas with the counter of the sexes.
  With two sexes and the single area \<open>area_0\<close>, the same assignment reads \<^verbatim>\<open>areas_[1]\<close>
  outside the vector.
\<close>

theorem partition_binds_area_of_sex_index:
  "area_fixed 1 1 1 0 = Inr (area_0, 1)
   \<and> area_fixed 1 1 1 1 = Inr (area_1, 2)
   \<and> population_fixed 1 1 1 [1] 2 = Inr (pop_1_1_1, 3)
   \<and> map_sum id (\<lambda>(p, g). bound_areas p 0)
        (initialize_subpopulations 1 [area_0, area_1] (pop_1_1_1, 3))
      = Inr [Some area_0, Some area_0]
   \<and> [area_0, area_1] ! 1 \<noteq> area_0
   \<and> initialize_subpopulations 2 [area_0] (pop_1_1_1, 3) = Inl out_of_range"
proof -
  have "map_sum id (\<lambda>(p, g). bound_areas p 0)
          (initialize_subpopulations 1 [area_0, area_1] (pop_1_1_1, 3))
        = Inr [Some area_0, Some area_0]"
    by (simp add: bound_areas_def pop_1_1_1_def population_eval grid_eval loop_eval size_eval
        record_eval)
  moreover have "[area_0, area_1] ! 1 \<noteq> area_0"
    by (simp add: area_0_def area_1_def)
  moreover have "initialize_subpopulations 2 [area_0] (pop_1_1_1, 3) = Inl out_of_range"
    by (simp add: pop_1_1_1_def population_eval grid_eval loop_eval size_eval record_eval)
  ultimately show ?thesis
    using area_0_built area_1_built pop_1_1_1_built by simp
qed

end
